theory Spec2Isabelle
  imports Main "HOL-Library.Word"
begin

unbundle bit_operations_syntax

section \<open>Data model of the SNMP agent (snmp\_agent\_pdu.c)\<close>

text \<open>
  Status codes (\<open>error_t\<close>). The codes named in snmp\_agent\_pdu.c are constructors of
  their own; every other code of the stack is \<open>ERROR_OTHER k\<close>.
\<close>

datatype error_t =
    NO_ERROR
  | ERROR_INVALID_TYPE
  | ERROR_ACCESS_DENIED
  | ERROR_OBJECT_NOT_FOUND
  | ERROR_INSTANCE_NOT_FOUND
  | ERROR_BUFFER_OVERFLOW
  | ERROR_NOT_IMPLEMENTED
  | ERROR_UNSUPPORTED_SECURITY_LEVEL
  | ERROR_NOT_IN_TIME_WINDOW
  | ERROR_UNKNOWN_USER_NAME
  | ERROR_UNKNOWN_ENGINE_ID
  | ERROR_AUTHENTICATION_FAILED
  | ERROR_DECRYPTION_FAILED
  | ERROR_UNAVAILABLE_CONTEXT
  | ERROR_UNKNOWN_CONTEXT
  | ERROR_OTHER nat

datatype SnmpVersion = SNMP_VERSION_1 | SNMP_VERSION_2C | SNMP_VERSION_3

datatype SnmpPduType =
    SNMP_PDU_GET_REQUEST
  | SNMP_PDU_GET_NEXT_REQUEST
  | SNMP_PDU_GET_RESPONSE
  | SNMP_PDU_SET_REQUEST
  | SNMP_PDU_TRAP
  | SNMP_PDU_GET_BULK_REQUEST
  | SNMP_PDU_INFORM_REQUEST
  | SNMP_PDU_TRAP_V2
  | SNMP_PDU_REPORT

datatype SnmpAccess =
    SNMP_ACCESS_NONE
  | SNMP_ACCESS_READ_ONLY
  | SNMP_ACCESS_WRITE_ONLY
  | SNMP_ACCESS_READ_WRITE

datatype Asn1Class =
    ASN1_CLASS_UNIVERSAL
  | ASN1_CLASS_APPLICATION
  | ASN1_CLASS_CONTEXT_SPECIFIC
  | ASN1_CLASS_PRIVATE

type_synonym octet = "8 word"

text \<open>
  A variable binding (\<open>SnmpVarBind\<close>). A pointer with its length is one list:
  \<open>oid\<close> stands for \<open>oid\<close>/\<open>oidLen\<close> and \<open>varValue\<close> for \<open>value\<close>/\<open>valueLen\<close>,
  so that \<open>valueLen = 0\<close> is the empty list.
\<close>

record SnmpVarBind =
  oid :: "octet list"
  objClass :: Asn1Class
  objType :: nat
  varValue :: "octet list"

text \<open>
  Modelled from the spec: the tags of the three exception values and of Counter32 are
  declared outside snmp\_agent\_pdu.c; the spec names the value tags noSuchObject,
  noSuchInstance and endOfMibView, which are the context-specific tags 0, 1 and 2,
  and Counter32 is application tag 1.
\<close>

definition SNMP_EXCEPTION_NO_SUCH_OBJECT :: nat where
  "SNMP_EXCEPTION_NO_SUCH_OBJECT = 0"

definition SNMP_EXCEPTION_NO_SUCH_INSTANCE :: nat where
  "SNMP_EXCEPTION_NO_SUCH_INSTANCE = 1"

definition SNMP_EXCEPTION_END_OF_MIB_VIEW :: nat where
  "SNMP_EXCEPTION_END_OF_MIB_VIEW = 2"

definition MIB_TYPE_COUNTER32 :: nat where
  "MIB_TYPE_COUNTER32 = 1"

text \<open>
  Modelled from the spec: the error-status value tooBig and the message flags are
  declared outside snmp\_agent\_pdu.c; tooBig is error-status 1, the authentication
  flag is bit 0 and the privacy flag is bit 1 of msgFlags, USM is security model 3.
\<close>

definition SNMP_ERROR_TOO_BIG :: int where
  "SNMP_ERROR_TOO_BIG = 1"

definition SNMP_MSG_FLAG_AUTH :: octet where
  "SNMP_MSG_FLAG_AUTH = 0x01"

definition SNMP_MSG_FLAG_PRIV :: octet where
  "SNMP_MSG_FLAG_PRIV = 0x02"

definition SNMP_SECURITY_MODEL_USM :: int where
  "SNMP_SECURITY_MODEL_USM = 3"

text \<open>
  The variable-binding region of a message (\<open>varBindList\<close>/\<open>varBindListLen\<close>) is the
  sequence of its encoded bindings. An element is either the binding that
  \<open>snmpParseVarBinding\<close> decodes from it, or the status code with which
  \<open>snmpParseVarBinding\<close> rejects it. The cursor \<open>p\<close>/\<open>length\<close> of the handlers is the
  remaining sequence, and the number \<open>n\<close> of consumed bytes is counted in elements.
\<close>

datatype VarBindEnc = Malformed error_t | Encoded SnmpVarBind

text \<open>
  Modelled from the spec: the declaration of \<open>SnmpMessage\<close> is not in
  snmp\_agent\_pdu.c; the fields are those the file reads and writes. The spec describes
  non-repeaters and max-repetitions as counts, so they are natural numbers here: the
  request that \<open>snmpParsePduHeader\<close> hands over carries no negative count.
\<close>

record SnmpMessage =
  version :: SnmpVersion
  msgId :: int
  msgMaxSize :: int
  msgFlags :: octet
  msgSecurityModel :: int
  msgAuthEngineId :: "octet list"
  msgAuthEngineIdLen :: nat
  msgAuthEngineBoots :: int
  msgAuthEngineTime :: int
  msgUserName :: string
  msgUserNameLen :: nat
  msgAuthParameters :: "octet list option"
  msgAuthParametersLen :: nat
  msgPrivParameters :: "octet list option"
  msgPrivParametersLen :: nat
  contextEngineId :: "octet list"
  contextEngineIdLen :: nat
  contextName :: string
  contextNameLen :: nat
  pduType :: SnmpPduType
  requestId :: int
  errorStatus :: int
  errorIndex :: int
  nonRepeaters :: nat
  maxRepetitions :: nat
  varBindList :: "VarBindEnc list"

record SnmpUserEntry =
  mode :: SnmpAccess

text \<open>
  The counters of the snmp group of MIB-II and of SNMP-MIB that the handlers increment
  (\<open>MIB2_INC_COUNTER32\<close>, \<open>SNMP_MIB_INC_COUNTER32\<close>), and the usmStats counters of
  SNMP-USM-MIB. They are 32-bit counters and wrap around.
\<close>

record Mib2SnmpGroup =
  snmpInGetRequests :: "32 word"
  snmpInGetNexts :: "32 word"
  snmpInSetRequests :: "32 word"
  snmpInBadCommunityUses :: "32 word"
  snmpInTotalReqVars :: "32 word"
  snmpInTotalSetVars :: "32 word"
  snmpOutGetResponses :: "32 word"

record SnmpUsmMibBase =
  usmStatsUnsupportedSecLevels :: "32 word"
  usmStatsNotInTimeWindows :: "32 word"
  usmStatsUnknownUserNames :: "32 word"
  usmStatsUnknownEngineIDs :: "32 word"
  usmStatsWrongDigests :: "32 word"
  usmStatsDecryptionErrors :: "32 word"

text \<open>
  The agent context, with the state the handlers reach through it: the managed-object
  store \<open>mib\<close> of type \<open>'mib\<close> and the counter groups.
\<close>

record 'mib SnmpAgentContext =
  request :: SnmpMessage
  response :: SnmpMessage
  user :: SnmpUserEntry
  contextEngine :: "octet list"
  contextEngineLen :: nat
  agentContextName :: string
  engineBoots :: int
  engineTime :: int
  privParameters :: "octet list"
  mib :: 'mib
  mib2SnmpGroup :: Mib2SnmpGroup
  snmpMibInBadCommunityUses :: "32 word"
  snmpUsmMibBase :: SnmpUsmMibBase

section \<open>Collaborators outside snmp\_agent\_pdu.c\<close>

text \<open>
  The functions, constants and tables that snmp\_agent\_pdu.c calls and does not define
  are parameters of the model, collected in one record. A function that returns
  \<open>error_t\<close> and writes through a pointer returns the pair of both.
  \<^item> \<open>snmpComputeMessageOverhead\<close> and \<open>snmpWritePduHeader\<close> lay out the message
    buffer around the variable-binding list and change no field of the model, so they
    return their status code only;
  \<^item> \<open>checkSet\<close> and \<open>commitSet\<close> are the two modes of \<open>snmpSetObjectValue\<close>;
  \<^item> \<open>writeVarBindingStatus\<close> and \<open>copyVarBindingListStatus\<close> decide whether
    \<open>snmpWriteVarBinding\<close> and \<open>snmpCopyVarBindingList\<close> succeed (encoding and room in
    the response buffer).
\<close>

record 'mib SnmpCollab =
  snmpParsePduHeader :: "SnmpMessage \<Rightarrow> error_t \<times> SnmpMessage"
  snmpWritePduHeader :: "SnmpMessage \<Rightarrow> error_t"
  snmpInitResponse :: "'mib SnmpAgentContext \<Rightarrow> error_t \<times> SnmpMessage"
  snmpComputeMessageOverhead :: "SnmpMessage \<Rightarrow> error_t"
  oidCheck :: "octet list \<Rightarrow> error_t"
  snmpGetObjectValue :: "'mib SnmpAgentContext \<Rightarrow> SnmpVarBind \<Rightarrow> error_t \<times> SnmpVarBind"
  snmpGetNextObject :: "'mib SnmpAgentContext \<Rightarrow> SnmpVarBind \<Rightarrow> error_t \<times> SnmpVarBind"
  checkSet :: "'mib SnmpAgentContext \<Rightarrow> SnmpVarBind \<Rightarrow> error_t"
  commitSet :: "'mib SnmpAgentContext \<Rightarrow> SnmpVarBind \<Rightarrow> error_t \<times> 'mib"
  writeVarBindingStatus :: "SnmpMessage \<Rightarrow> SnmpVarBind \<Rightarrow> error_t"
  copyVarBindingListStatus :: "'mib SnmpAgentContext \<Rightarrow> error_t"
  snmpTranslateStatusCode :: "SnmpMessage \<Rightarrow> error_t \<Rightarrow> int \<Rightarrow> error_t \<times> SnmpMessage"
  snmpEncodeUnsignedInt32 :: "32 word \<Rightarrow> error_t \<times> octet list"
  SNMP_MAX_MSG_SIZE :: int
  usmStatsUnsupportedSecLevelsObject :: "octet list"
  usmStatsNotInTimeWindowsObject :: "octet list"
  usmStatsUnknownUserNamesObject :: "octet list"
  usmStatsUnknownEngineIdsObject :: "octet list"
  usmStatsWrongDigestsObject :: "octet list"
  usmStatsDecryptionErrorsObject :: "octet list"
  SNMP_AGENT_INFORM_SUPPORT :: bool
  snmpProcessGetResponsePdu :: "'mib SnmpAgentContext \<Rightarrow> error_t \<times> 'mib SnmpAgentContext"
  snmpProcessReportPdu :: "'mib SnmpAgentContext \<Rightarrow> error_t \<times> 'mib SnmpAgentContext"

text \<open>
  Modelled from the spec: \<open>snmpParseVarBinding\<close> is not in snmp\_agent\_pdu.c. It reads
  one variable binding from the cursor and reports the consumed length, or fails with
  the decode error. The handlers call it only with \<open>length > 0\<close>.
\<close>

fun snmpParseVarBinding :: "VarBindEnc list \<Rightarrow> error_t + (SnmpVarBind \<times> nat)" where
  "snmpParseVarBinding [] = Inl (ERROR_OTHER 0)"
| "snmpParseVarBinding (Malformed e # rest) = Inl e"
| "snmpParseVarBinding (Encoded var # rest) = Inr (var, 1)"

text \<open>
  Modelled from the spec: \<open>snmpWriteVarBinding\<close> is not in snmp\_agent\_pdu.c. It appends
  one variable binding to the response, or fails and leaves the response as it is.
\<close>

definition snmpWriteVarBinding ::
  "'mib SnmpCollab \<Rightarrow> 'mib SnmpAgentContext \<Rightarrow> SnmpVarBind \<Rightarrow> error_t \<times> 'mib SnmpAgentContext" where
  "snmpWriteVarBinding env c var =
     (let e = writeVarBindingStatus env (response c) var
      in if e \<noteq> NO_ERROR then (e, c)
         else (NO_ERROR,
               c\<lparr>response := (response c)\<lparr>varBindList := varBindList (response c) @ [Encoded var]\<rparr>\<rparr>))"

text \<open>
  Modelled from the spec: \<open>snmpCopyVarBindingList\<close> is not in snmp\_agent\_pdu.c. It
  re-formats the response so that its variable-binding list echoes the request's, or
  fails and leaves the response as it is.
\<close>

definition snmpCopyVarBindingList ::
  "'mib SnmpCollab \<Rightarrow> 'mib SnmpAgentContext \<Rightarrow> error_t \<times> 'mib SnmpAgentContext" where
  "snmpCopyVarBindingList env c =
     (let e = copyVarBindingListStatus env c
      in if e \<noteq> NO_ERROR then (e, c)
         else (NO_ERROR, c\<lparr>response := (response c)\<lparr>varBindList := varBindList (request c)\<rparr>\<rparr>))"

text \<open>
  Modelled from the spec: \<open>snmpSetObjectValue\<close> is not in snmp\_agent\_pdu.c. With
  \<open>commit = FALSE\<close> it is the store's check operation, which validates the value
  without mutating state; with \<open>commit = TRUE\<close> it is the store's commit operation.
\<close>

definition snmpSetObjectValue ::
  "'mib SnmpCollab \<Rightarrow> 'mib SnmpAgentContext \<Rightarrow> SnmpVarBind \<Rightarrow> bool \<Rightarrow> error_t \<times> 'mib SnmpAgentContext" where
  "snmpSetObjectValue env c var commit =
     (if commit then (let (e, st) = commitSet env c var in (e, c\<lparr>mib := st\<rparr>))
      else (checkSet env c var, c))"

text \<open>
  Modelled from the spec: \<open>snmpInitMessage\<close> is not in snmp\_agent\_pdu.c. It
  initialises an empty message.
\<close>

definition snmpInitMessage :: SnmpMessage where
  "snmpInitMessage =
     \<lparr>version = SNMP_VERSION_1, msgId = 0, msgMaxSize = 0, msgFlags = 0,
      msgSecurityModel = 0, msgAuthEngineId = [], msgAuthEngineIdLen = 0,
      msgAuthEngineBoots = 0, msgAuthEngineTime = 0, msgUserName = [],
      msgUserNameLen = 0, msgAuthParameters = None, msgAuthParametersLen = 0,
      msgPrivParameters = None, msgPrivParametersLen = 0, contextEngineId = [],
      contextEngineIdLen = 0, contextName = [], contextNameLen = 0,
      pduType = SNMP_PDU_GET_REQUEST, requestId = 0, errorStatus = 0, errorIndex = 0,
      nonRepeaters = 0, maxRepetitions = 0, varBindList = []\<rparr>"

text \<open>The counter macros: a 32-bit addition on one field of a counter group.\<close>

definition incBadCommunityUses :: "'mib SnmpAgentContext \<Rightarrow> 'mib SnmpAgentContext" where
  "incBadCommunityUses c =
     c\<lparr>mib2SnmpGroup := (mib2SnmpGroup c)\<lparr>snmpInBadCommunityUses :=
          snmpInBadCommunityUses (mib2SnmpGroup c) + 1\<rparr>,
       snmpMibInBadCommunityUses := snmpMibInBadCommunityUses c + 1\<rparr>"

definition incInTotalReqVars :: "'mib SnmpAgentContext \<Rightarrow> 'mib SnmpAgentContext" where
  "incInTotalReqVars c =
     c\<lparr>mib2SnmpGroup := (mib2SnmpGroup c)\<lparr>snmpInTotalReqVars :=
          snmpInTotalReqVars (mib2SnmpGroup c) + 1\<rparr>\<rparr>"

definition incInTotalSetVars :: "'mib SnmpAgentContext \<Rightarrow> 'mib SnmpAgentContext" where
  "incInTotalSetVars c =
     c\<lparr>mib2SnmpGroup := (mib2SnmpGroup c)\<lparr>snmpInTotalSetVars :=
          snmpInTotalSetVars (mib2SnmpGroup c) + 1\<rparr>\<rparr>"

definition incInSetRequests :: "'mib SnmpAgentContext \<Rightarrow> 'mib SnmpAgentContext" where
  "incInSetRequests c =
     c\<lparr>mib2SnmpGroup := (mib2SnmpGroup c)\<lparr>snmpInSetRequests :=
          snmpInSetRequests (mib2SnmpGroup c) + 1\<rparr>\<rparr>"

definition incInGetRequests :: "'mib SnmpAgentContext \<Rightarrow> 'mib SnmpAgentContext" where
  "incInGetRequests c =
     c\<lparr>mib2SnmpGroup := (mib2SnmpGroup c)\<lparr>snmpInGetRequests :=
          snmpInGetRequests (mib2SnmpGroup c) + 1\<rparr>\<rparr>"

definition incInGetNexts :: "'mib SnmpAgentContext \<Rightarrow> 'mib SnmpAgentContext" where
  "incInGetNexts c =
     c\<lparr>mib2SnmpGroup := (mib2SnmpGroup c)\<lparr>snmpInGetNexts :=
          snmpInGetNexts (mib2SnmpGroup c) + 1\<rparr>\<rparr>"

definition incOutGetResponses :: "'mib SnmpAgentContext \<Rightarrow> 'mib SnmpAgentContext" where
  "incOutGetResponses c =
     c\<lparr>mib2SnmpGroup := (mib2SnmpGroup c)\<lparr>snmpOutGetResponses :=
          snmpOutGetResponses (mib2SnmpGroup c) + 1\<rparr>\<rparr>"

section \<open>SetRequest-PDU\<close>

text \<open>
  One loop of \<open>snmpProcessSetRequestPdu\<close> (lines 622-639 with \<open>commit = FALSE\<close>, lines
  650-672 with \<open>commit = TRUE\<close>). The result is the value of \<open>error\<close> and of \<open>index\<close>
  when the loop is left, and the context.
\<close>

function setLoop ::
  "'mib SnmpCollab \<Rightarrow> bool \<Rightarrow> 'mib SnmpAgentContext \<Rightarrow> int \<Rightarrow> VarBindEnc list
     \<Rightarrow> error_t \<times> int \<times> 'mib SnmpAgentContext" where
  "setLoop env commit c idx p =
     (if p = [] then (NO_ERROR, idx, c)
      else case snmpParseVarBinding p of
          Inl e \<Rightarrow> (e, idx, c)
        | Inr (var, n) \<Rightarrow>
            (case snmpSetObjectValue env c var commit of
               (e, c') \<Rightarrow>
                 if e \<noteq> NO_ERROR then (e, idx, c')
                 else setLoop env commit (if commit then incInTotalSetVars c' else c')
                        (idx + 1) (drop n p)))"
  by pat_completeness auto
termination
proof (relation "measure (\<lambda>(env, commit, c, idx, p). length p)")
  show "wf (measure (\<lambda>(env, commit, c, idx, p). length p))"
    by simp
next
  fix env :: "'mib SnmpCollab" and commit :: bool and c :: "'mib SnmpAgentContext"
    and idx :: int and p :: "VarBindEnc list" and var n x e c' and y :: "SnmpVarBind \<times> nat"
  assume "p \<noteq> []" and parse: "snmpParseVarBinding p = Inr y" and y: "(var, n) = y"
  from parse y have "n = 1"
    by (cases p rule: snmpParseVarBinding.cases) auto
  with \<open>p \<noteq> []\<close>
  show "((env, commit, if commit then incInTotalSetVars c' else c', idx + 1, drop n p),
         (env, commit, c, idx, p)) \<in> measure (\<lambda>(env, commit, c, idx, p). length p)"
    by (cases p) auto
qed

definition snmpProcessSetRequestPdu ::
  "'mib SnmpCollab \<Rightarrow> 'mib SnmpAgentContext \<Rightarrow> error_t \<times> 'mib SnmpAgentContext" where
  "snmpProcessSetRequestPdu env c0 =
     (let c = incInSetRequests c0
      in if mode (user c) \<noteq> SNMP_ACCESS_WRITE_ONLY \<and> mode (user c) \<noteq> SNMP_ACCESS_READ_WRITE
         then (ERROR_ACCESS_DENIED, incBadCommunityUses c)
         else case snmpInitResponse env c of
           (e0, r) \<Rightarrow>
             let c = c\<lparr>response := r\<rparr>
             in if e0 \<noteq> NO_ERROR then (e0, c)
                else case setLoop env False c 1 (varBindList (request c)) of
                  (e1, idx1, c1) \<Rightarrow>
                    (case (if e1 = NO_ERROR
                           then setLoop env True c1 1 (varBindList (request c1))
                           else (e1, idx1, c1)) of
                       (e2, idx2, c2) \<Rightarrow>
                         if e2 \<noteq> NO_ERROR
                         then (case snmpTranslateStatusCode env (response c2) e2 idx2 of
                                 (e3, r3) \<Rightarrow>
                                   if e3 \<noteq> NO_ERROR then (e3, c2\<lparr>response := r3\<rparr>)
                                   else snmpCopyVarBindingList env (c2\<lparr>response := r3\<rparr>))
                         else snmpCopyVarBindingList env c2))"

section \<open>GetRequest-PDU and GetNextRequest-PDU\<close>

text \<open>The three exception values a handler writes into \<open>var\<close>.\<close>

definition setException :: "nat \<Rightarrow> SnmpVarBind \<Rightarrow> SnmpVarBind" where
  "setException tag var =
     var\<lparr>objClass := ASN1_CLASS_CONTEXT_SPECIFIC, objType := tag, varValue := []\<rparr>"

text \<open>
  Lines 209-261 of \<open>snmpProcessGetRequestPdu\<close>: the object is fetched. \<open>Inl e\<close> is a
  \<open>break\<close> with \<open>error = e\<close>; \<open>Inr (e, var)\<close> falls through to line 263.
\<close>

definition getFetch ::
  "'mib SnmpCollab \<Rightarrow> 'mib SnmpAgentContext \<Rightarrow> SnmpVarBind \<Rightarrow> error_t + (error_t \<times> SnmpVarBind)" where
  "getFetch env c var =
     (if pduType (request c) = SNMP_PDU_GET_REQUEST
      then Inr (snmpGetObjectValue env c var)
      else case snmpGetNextObject env c var of
        (e, var1) \<Rightarrow>
          if version (request c) = SNMP_VERSION_1
          then (if e = NO_ERROR then Inr (snmpGetObjectValue env c var1) else Inl e)
          else (if e = NO_ERROR then Inr (snmpGetObjectValue env c var1)
                else if e = ERROR_OBJECT_NOT_FOUND
                then Inr (NO_ERROR, setException SNMP_EXCEPTION_END_OF_MIB_VIEW var1)
                else Inl e))"

text \<open>
  Lines 263-304: a failed retrieval stops the loop or becomes an exception value; a
  successful one is counted.
\<close>

definition getCatch ::
  "'mib SnmpAgentContext \<Rightarrow> error_t \<Rightarrow> SnmpVarBind
     \<Rightarrow> error_t + (SnmpVarBind \<times> 'mib SnmpAgentContext)" where
  "getCatch c e var =
     (if e \<noteq> NO_ERROR
      then (if version (request c) = SNMP_VERSION_1 then Inl e
            else if e = ERROR_ACCESS_DENIED \<or> e = ERROR_OBJECT_NOT_FOUND
            then Inr (setException SNMP_EXCEPTION_NO_SUCH_OBJECT var, c)
            else if e = ERROR_INSTANCE_NOT_FOUND
            then Inr (setException SNMP_EXCEPTION_NO_SUCH_INSTANCE var, c)
            else Inl e)
      else Inr (var, incInTotalReqVars c))"

text \<open>
  The body of the loop after the binding is parsed (lines 203-310): \<open>Inl (e, c)\<close> is a
  \<open>break\<close> with \<open>error = e\<close>, \<open>Inr c\<close> reaches line 312.
\<close>

definition getVar ::
  "'mib SnmpCollab \<Rightarrow> 'mib SnmpAgentContext \<Rightarrow> SnmpVarBind
     \<Rightarrow> (error_t \<times> 'mib SnmpAgentContext) + 'mib SnmpAgentContext" where
  "getVar env c var =
     (let e = oidCheck env (oid var)
      in if e \<noteq> NO_ERROR then Inl (e, c)
         else case getFetch env c var of
             Inl e1 \<Rightarrow> Inl (e1, c)
           | Inr (e1, var1) \<Rightarrow>
               (case getCatch c e1 var1 of
                  Inl e2 \<Rightarrow> Inl (e2, c)
                | Inr (var2, c2) \<Rightarrow>
                    (case snmpWriteVarBinding env c2 var2 of
                       (e3, c3) \<Rightarrow> if e3 \<noteq> NO_ERROR then Inl (e3, c3) else Inr c3)))"

function getLoop ::
  "'mib SnmpCollab \<Rightarrow> 'mib SnmpAgentContext \<Rightarrow> int \<Rightarrow> VarBindEnc list
     \<Rightarrow> error_t \<times> int \<times> 'mib SnmpAgentContext" where
  "getLoop env c idx p =
     (if p = [] then (NO_ERROR, idx, c)
      else case snmpParseVarBinding p of
          Inl e \<Rightarrow> (e, idx, c)
        | Inr (var, n) \<Rightarrow>
            (case getVar env c var of
               Inl (e, c') \<Rightarrow> (e, idx, c')
             | Inr c' \<Rightarrow> getLoop env c' (idx + 1) (drop n p)))"
  by pat_completeness auto
termination
proof (relation "measure (\<lambda>(env, c, idx, p). length p)")
  show "wf (measure (\<lambda>(env, c, idx, p). length p))"
    by simp
next
  fix env :: "'mib SnmpCollab" and c c' :: "'mib SnmpAgentContext"
    and idx :: int and p :: "VarBindEnc list" and var n and y :: "SnmpVarBind \<times> nat"
  assume "p \<noteq> []" and parse: "snmpParseVarBinding p = Inr y" and y: "(var, n) = y"
  from parse y have "n = 1"
    by (cases p rule: snmpParseVarBinding.cases) auto
  with \<open>p \<noteq> []\<close>
  show "((env, c', idx + 1, drop n p), (env, c, idx, p)) \<in> measure (\<lambda>(env, c, idx, p). length p)"
    by (cases p) auto
qed

definition snmpProcessGetRequestPdu ::
  "'mib SnmpCollab \<Rightarrow> 'mib SnmpAgentContext \<Rightarrow> error_t \<times> 'mib SnmpAgentContext" where
  "snmpProcessGetRequestPdu env c0 =
     (let c =
        (if pduType (request c0) = SNMP_PDU_GET_REQUEST then incInGetRequests c0
         else if pduType (request c0) = SNMP_PDU_GET_NEXT_REQUEST then incInGetNexts c0
         else c0)
      in if mode (user c) \<noteq> SNMP_ACCESS_READ_ONLY \<and> mode (user c) \<noteq> SNMP_ACCESS_READ_WRITE
         then (ERROR_ACCESS_DENIED, incBadCommunityUses c)
         else case snmpInitResponse env c of
           (e0, r) \<Rightarrow>
             let c = c\<lparr>response := r\<rparr>
             in if e0 \<noteq> NO_ERROR then (e0, c)
                else case getLoop env c 1 (varBindList (request c)) of
                  (e1, idx1, c1) \<Rightarrow>
                    if e1 \<noteq> NO_ERROR
                    then (case snmpTranslateStatusCode env (response c1) e1 idx1 of
                            (e2, r2) \<Rightarrow>
                              if e2 \<noteq> NO_ERROR then (e2, c1\<lparr>response := r2\<rparr>)
                              else if version r2 \<noteq> SNMP_VERSION_1
                                      \<and> errorStatus r2 = SNMP_ERROR_TOO_BIG
                              then (NO_ERROR, c1\<lparr>response := r2\<lparr>varBindList := []\<rparr>\<rparr>)
                              else (case snmpCopyVarBindingList env (c1\<lparr>response := r2\<rparr>) of
                                      (e3, c3) \<Rightarrow>
                                        if e3 \<noteq> NO_ERROR then (e3, c3) else (NO_ERROR, c3)))
                    else (NO_ERROR, c1))"

section \<open>GetBulkRequest-PDU\<close>

text \<open>
  The local variables of \<open>snmpProcessGetBulkRequestPdu\<close> with the context. \<open>bs_p\<close> is
  the cursor \<open>p\<close>/\<open>length\<close>. \<open>bs_m\<close> is \<open>m\<close>, the size of the response list when the
  first repeated binding of a round is reached; \<open>next\<close> is the response list from that
  offset on, so \<open>p = next\<close> with \<open>length = varBindListLen - m\<close> is
  \<open>drop m\<close> of the response list.
\<close>

record 'mib BulkState =
  bs_ctx :: "'mib SnmpAgentContext"
  bs_error :: error_t
  bs_index :: int
  bs_p :: "VarBindEnc list"
  bs_m :: nat
  bs_endOfMibView :: bool

text \<open>
  Lines 445-470: \<open>Inl e\<close> is a \<open>break\<close> with \<open>error = e\<close>; \<open>Inr (e, var, eom)\<close> falls
  through to line 472 with the flag \<open>endOfMibView = eom\<close>.
\<close>

definition bulkFetch ::
  "'mib SnmpCollab \<Rightarrow> 'mib SnmpAgentContext \<Rightarrow> bool \<Rightarrow> SnmpVarBind
     \<Rightarrow> error_t + (error_t \<times> SnmpVarBind \<times> bool)" where
  "bulkFetch env c eom var =
     (case snmpGetNextObject env c var of
        (e, var1) \<Rightarrow>
          if e = NO_ERROR
          then (case snmpGetObjectValue env c var1 of (e2, var2) \<Rightarrow> Inr (e2, var2, False))
          else if e = ERROR_OBJECT_NOT_FOUND
          then Inr (NO_ERROR, setException SNMP_EXCEPTION_END_OF_MIB_VIEW var1, eom)
          else Inl e)"

text \<open>Lines 472-503.\<close>

definition bulkCatch ::
  "'mib SnmpAgentContext \<Rightarrow> error_t \<Rightarrow> SnmpVarBind
     \<Rightarrow> error_t + (SnmpVarBind \<times> 'mib SnmpAgentContext)" where
  "bulkCatch c e var =
     (if e \<noteq> NO_ERROR
      then (if e = ERROR_ACCESS_DENIED \<or> e = ERROR_OBJECT_NOT_FOUND
            then Inr (setException SNMP_EXCEPTION_NO_SUCH_OBJECT var, c)
            else if e = ERROR_INSTANCE_NOT_FOUND
            then Inr (setException SNMP_EXCEPTION_NO_SUCH_INSTANCE var, c)
            else Inl e)
      else Inr (var, incInTotalReqVars c))"

text \<open>
  Lines 515-534 and the \<open>index++\<close> of the \<open>for\<close> statement, after the cursor has
  advanced: \<open>Inl s\<close> is a \<open>break\<close>, \<open>Inr s\<close> is the state at the next test of
  \<open>length > 0\<close>.
\<close>

definition bulkNext :: "'mib BulkState \<Rightarrow> 'mib BulkState + 'mib BulkState" where
  "bulkNext s =
     (let c = bs_ctx s
      in if length (bs_p s) = 0 \<and> bs_index s > int (nonRepeaters (request c))
         then (let c1 = c\<lparr>request := (request c)\<lparr>maxRepetitions :=
                             maxRepetitions (request c) - 1\<rparr>\<rparr>;
                   s1 = s\<lparr>bs_ctx := c1\<rparr>
               in if maxRepetitions (request c1) = 0 then Inl s1
                  else if bs_endOfMibView s1 then Inl s1
                  else Inr (s1\<lparr>bs_p := drop (bs_m s1) (varBindList (response c1)),
                               bs_index := int (nonRepeaters (request c1)) + 1\<rparr>))
         else Inr (s\<lparr>bs_index := bs_index s + 1\<rparr>))"

text \<open>
  Lines 412-513 of one iteration, entered with \<open>length > 0\<close>: \<open>Inl s\<close> is a \<open>break\<close>,
  \<open>Inr s\<close> is the state after the binding has been appended and the cursor has
  advanced.
\<close>

definition bulkVarBind :: "'mib SnmpCollab \<Rightarrow> 'mib BulkState \<Rightarrow> 'mib BulkState + 'mib BulkState" where
  "bulkVarBind env s0 =
     (let first = (bs_index s0 - 1 = int (nonRepeaters (request (bs_ctx s0))));
          s = (if first
               then s0\<lparr>bs_m := length (varBindList (response (bs_ctx s0))),
                       bs_endOfMibView := True\<rparr>
               else s0);
          c = bs_ctx s
      in if first \<and> maxRepetitions (request c) = 0 then Inl s
         else case snmpParseVarBinding (bs_p s) of
             Inl e \<Rightarrow> Inl (s\<lparr>bs_error := e\<rparr>)
           | Inr (var, n) \<Rightarrow>
               (let e = oidCheck env (oid var)
                in if e \<noteq> NO_ERROR then Inl (s\<lparr>bs_error := e\<rparr>)
                   else case bulkFetch env c (bs_endOfMibView s) var of
                       Inl e1 \<Rightarrow> Inl (s\<lparr>bs_error := e1\<rparr>)
                     | Inr (e1, var1, eom) \<Rightarrow>
                         (case bulkCatch c e1 var1 of
                            Inl e2 \<Rightarrow> Inl (s\<lparr>bs_error := e2, bs_endOfMibView := eom\<rparr>)
                          | Inr (var2, c2) \<Rightarrow>
                              (case snmpWriteVarBinding env c2 var2 of
                                 (e3, c3) \<Rightarrow>
                                   if e3 \<noteq> NO_ERROR
                                   then Inl (s\<lparr>bs_ctx := c3, bs_error := e3,
                                               bs_endOfMibView := eom\<rparr>)
                                   else Inr (s\<lparr>bs_ctx := c3, bs_error := NO_ERROR,
                                               bs_endOfMibView := eom,
                                               bs_p := drop n (bs_p s)\<rparr>)))))"

text \<open>
  One iteration of the loop of lines 410-535, entered with \<open>length > 0\<close>: \<open>Inl s\<close> is a
  \<open>break\<close>, \<open>Inr s\<close> is the state at the next test of \<open>length > 0\<close>.
\<close>

definition bulkStep :: "'mib SnmpCollab \<Rightarrow> 'mib BulkState \<Rightarrow> 'mib BulkState + 'mib BulkState" where
  "bulkStep env s =
     (case bulkVarBind env s of Inl s' \<Rightarrow> Inl s' | Inr s' \<Rightarrow> bulkNext s')"

text \<open>
  The loop of lines 410-535. Every iteration either consumes a binding of the cursor
  or starts a new round with \<open>maxRepetitions\<close> decremented, so the loop is total.
\<close>

function bulkLoop :: "'mib SnmpCollab \<Rightarrow> 'mib BulkState \<Rightarrow> 'mib BulkState" where
  "bulkLoop env s =
     (if bs_p s = [] then s
      else case bulkStep env s of Inl s' \<Rightarrow> s' | Inr s' \<Rightarrow> bulkLoop env s')"
  by pat_completeness auto
termination
proof (relation "inv_image (less_than <*lex*> less_than)
         (\<lambda>(env, s). (maxRepetitions (request (bs_ctx s)), length (bs_p s)))", goal_cases)
  case 1
  show ?case by (intro wf_inv_image wf_lex_prod wf_less_than)
next
  case (2 env s s')
  have "maxRepetitions (request (bs_ctx s')) < maxRepetitions (request (bs_ctx s))
         \<or> (maxRepetitions (request (bs_ctx s')) = maxRepetitions (request (bs_ctx s))
            \<and> length (bs_p s') < length (bs_p s))"
    using 2
    by (cases "bs_p s" rule: snmpParseVarBinding.cases)
       (auto simp: bulkStep_def bulkVarBind_def bulkNext_def snmpWriteVarBinding_def
            bulkCatch_def incInTotalReqVars_def Let_def
          split: if_splits sum.splits prod.splits)
  then show ?case by auto
qed

text \<open>
  The locals at line 410. \<open>m\<close>, \<open>next\<close> and \<open>endOfMibView\<close> are not initialised by the
  source; they are assigned at line 418 before any read.
\<close>

definition bulkInit :: "'mib SnmpAgentContext \<Rightarrow> 'mib BulkState" where
  "bulkInit c =
     \<lparr>bs_ctx = c, bs_error = NO_ERROR, bs_index = 1, bs_p = varBindList (request c),
      bs_m = 0, bs_endOfMibView = False\<rparr>"

definition snmpProcessGetBulkRequestPdu ::
  "'mib SnmpCollab \<Rightarrow> 'mib SnmpAgentContext \<Rightarrow> error_t \<times> 'mib SnmpAgentContext" where
  "snmpProcessGetBulkRequestPdu env c0 =
     (if version (request c0) = SNMP_VERSION_1 then (ERROR_INVALID_TYPE, c0)
      else if mode (user c0) \<noteq> SNMP_ACCESS_READ_ONLY \<and> mode (user c0) \<noteq> SNMP_ACCESS_READ_WRITE
      then (ERROR_ACCESS_DENIED, incBadCommunityUses c0)
      else case snmpInitResponse env c0 of
        (e0, r) \<Rightarrow>
          let c = c0\<lparr>response := r\<rparr>
          in if e0 \<noteq> NO_ERROR then (e0, c)
             else let s = bulkLoop env (bulkInit c); c1 = bs_ctx s
                  in if bs_error s = ERROR_BUFFER_OVERFLOW then (NO_ERROR, c1)
                     else if bs_error s \<noteq> NO_ERROR
                     then (case snmpTranslateStatusCode env (response c1) (bs_error s) (bs_index s) of
                             (e2, r2) \<Rightarrow>
                               if e2 \<noteq> NO_ERROR then (e2, c1\<lparr>response := r2\<rparr>)
                               else (case snmpCopyVarBindingList env (c1\<lparr>response := r2\<rparr>) of
                                       (e3, c3) \<Rightarrow>
                                         if e3 \<noteq> NO_ERROR then (e3, c3) else (NO_ERROR, c3)))
                     else (NO_ERROR, c1))"

section \<open>Report-PDU\<close>

text \<open>snmpUnavailableContexts.0 and snmpUnknownContexts.0 (lines 52 and 54).\<close>

definition snmpUnavailableContextsObject :: "octet list" where
  "snmpUnavailableContextsObject = [43, 6, 1, 6, 3, 12, 1, 4, 0]"

definition snmpUnknownContextsObject :: "octet list" where
  "snmpUnknownContextsObject = [43, 6, 1, 6, 3, 12, 1, 5, 0]"

text \<open>
  Lines 711-768 of \<open>snmpFormatReportPdu\<close>: the header fields of the response.
\<close>

definition reportHeader :: "'mib SnmpCollab \<Rightarrow> 'mib SnmpAgentContext \<Rightarrow> error_t \<Rightarrow> SnmpMessage" where
  "reportHeader env c errorIndication =
     (let r = snmpInitMessage
               \<lparr>version := version (request c),
                msgId := msgId (request c),
                msgMaxSize := SNMP_MAX_MSG_SIZE env,
                msgFlags := 0,
                msgSecurityModel := SNMP_SECURITY_MODEL_USM,
                msgAuthEngineId := contextEngine c,
                msgAuthEngineIdLen := contextEngineLen c,
                msgAuthEngineBoots := engineBoots c,
                msgAuthEngineTime := engineTime c,
                contextEngineId := contextEngine c,
                contextEngineIdLen := contextEngineLen c,
                contextName := agentContextName c,
                contextNameLen := length (agentContextName c),
                pduType := SNMP_PDU_REPORT,
                requestId := requestId (request c)\<rparr>
      in if errorIndication = ERROR_NOT_IN_TIME_WINDOW
         then r\<lparr>msgFlags := msgFlags (request c) AND (SNMP_MSG_FLAG_AUTH OR SNMP_MSG_FLAG_PRIV),
                msgUserName := msgUserName (request c),
                msgUserNameLen := msgUserNameLen (request c),
                msgAuthParameters := None,
                msgAuthParametersLen := msgAuthParametersLen (request c),
                msgPrivParameters := Some (privParameters c),
                msgPrivParametersLen := msgPrivParametersLen (request c)\<rparr>
         else r)"

text \<open>
  Lines 776-875: the \<open>switch\<close> on the error indication. The result is the counter
  group, the value of \<open>counter\<close> and \<open>var.oid\<close>. \<open>SNMP_USM_MIB_INC_COUNTER32\<close> adds to a
  counter of the group and \<open>SNMP_USM_MIB_GET_COUNTER32\<close> reads it.
\<close>

definition reportCounter ::
  "'mib SnmpCollab \<Rightarrow> SnmpUsmMibBase \<Rightarrow> error_t \<Rightarrow> SnmpUsmMibBase \<times> 32 word \<times> octet list" where
  "reportCounter env b errorIndication =
     (case errorIndication of
        ERROR_UNSUPPORTED_SECURITY_LEVEL \<Rightarrow>
          (let b1 = b\<lparr>usmStatsUnsupportedSecLevels := usmStatsUnsupportedSecLevels b + 1\<rparr>
           in (b1, usmStatsUnsupportedSecLevels b1, usmStatsUnsupportedSecLevelsObject env))
      | ERROR_NOT_IN_TIME_WINDOW \<Rightarrow>
          (let b1 = b\<lparr>usmStatsNotInTimeWindows := usmStatsNotInTimeWindows b + 1\<rparr>
           in (b1, usmStatsNotInTimeWindows b1, usmStatsNotInTimeWindowsObject env))
      | ERROR_UNKNOWN_USER_NAME \<Rightarrow>
          (let b1 = b\<lparr>usmStatsUnknownUserNames := usmStatsUnknownUserNames b + 1\<rparr>
           in (b1, usmStatsUnknownUserNames b1, usmStatsUnknownUserNamesObject env))
      | ERROR_UNKNOWN_ENGINE_ID \<Rightarrow>
          (let b1 = b\<lparr>usmStatsUnknownEngineIDs := usmStatsUnknownEngineIDs b + 1\<rparr>
           in (b1, usmStatsUnknownEngineIDs b1, usmStatsUnknownEngineIdsObject env))
      | ERROR_AUTHENTICATION_FAILED \<Rightarrow>
          (let b1 = b\<lparr>usmStatsWrongDigests := usmStatsWrongDigests b + 1\<rparr>
           in (b1, usmStatsWrongDigests b1, usmStatsWrongDigestsObject env))
      | ERROR_DECRYPTION_FAILED \<Rightarrow>
          (let b1 = b\<lparr>usmStatsDecryptionErrors := usmStatsDecryptionErrors b + 1\<rparr>
           in (b1, usmStatsDecryptionErrors b1, usmStatsDecryptionErrorsObject env))
      | ERROR_UNAVAILABLE_CONTEXT \<Rightarrow> (b, 1, snmpUnavailableContextsObject)
      | ERROR_UNKNOWN_CONTEXT \<Rightarrow> (b, 1, snmpUnknownContextsObject)
      | _ \<Rightarrow> (b, 1, []))"

definition snmpFormatReportPdu ::
  "'mib SnmpCollab \<Rightarrow> 'mib SnmpAgentContext \<Rightarrow> error_t \<Rightarrow> error_t \<times> 'mib SnmpAgentContext" where
  "snmpFormatReportPdu env c0 errorIndication =
     (let c = c0\<lparr>response := reportHeader env c0 errorIndication\<rparr>;
          e0 = snmpComputeMessageOverhead env (response c)
      in if e0 \<noteq> NO_ERROR then (e0, c)
         else case reportCounter env (snmpUsmMibBase c) errorIndication of
           (b1, counter, varOid) \<Rightarrow>
             let c1 = c\<lparr>snmpUsmMibBase := b1\<rparr>
             in (case snmpEncodeUnsignedInt32 env counter of
                   (e1, buf) \<Rightarrow>
                     if e1 \<noteq> NO_ERROR then (e1, c1)
                     else (case snmpWriteVarBinding env c1
                                  \<lparr>oid = varOid, objClass = ASN1_CLASS_APPLICATION,
                                   objType = MIB_TYPE_COUNTER32, varValue = buf\<rparr> of
                             (e2, c2) \<Rightarrow>
                               if e2 \<noteq> NO_ERROR then (e2, c2)
                               else (snmpWritePduHeader env (response c2), c2))))"

section \<open>PDU dispatch\<close>

definition snmpProcessPdu ::
  "'mib SnmpCollab \<Rightarrow> 'mib SnmpAgentContext \<Rightarrow> error_t \<times> 'mib SnmpAgentContext" where
  "snmpProcessPdu env c0 =
     (case snmpParsePduHeader env (request c0) of
        (e0, req) \<Rightarrow>
          let c = c0\<lparr>request := req\<rparr>
          in if e0 \<noteq> NO_ERROR then (e0, c)
             else let c1 = c\<lparr>response := snmpInitMessage\<rparr>;
                      t = pduType (request c1)
                  in case (if t = SNMP_PDU_GET_REQUEST \<or> t = SNMP_PDU_GET_NEXT_REQUEST
                           then snmpProcessGetRequestPdu env c1
                           else if t = SNMP_PDU_GET_BULK_REQUEST
                           then snmpProcessGetBulkRequestPdu env c1
                           else if t = SNMP_PDU_SET_REQUEST
                           then snmpProcessSetRequestPdu env c1
                           else if SNMP_AGENT_INFORM_SUPPORT env \<and> t = SNMP_PDU_GET_RESPONSE
                           then snmpProcessGetResponsePdu env c1
                           else if SNMP_AGENT_INFORM_SUPPORT env \<and> t = SNMP_PDU_REPORT
                           then snmpProcessReportPdu env c1
                           else (ERROR_INVALID_TYPE, c1)) of
                       (e1, c2) \<Rightarrow>
                         if e1 = NO_ERROR
                         then (if pduType (request c2) = SNMP_PDU_GET_REQUEST
                                  \<or> pduType (request c2) = SNMP_PDU_GET_NEXT_REQUEST
                                  \<or> pduType (request c2) = SNMP_PDU_GET_BULK_REQUEST
                                  \<or> pduType (request c2) = SNMP_PDU_SET_REQUEST
                               then (let c3 = incOutGetResponses c2
                                     in (snmpWritePduHeader env (response c3), c3))
                               else (e1, c2))
                         else (e1, c2))"

section \<open>Notions used to state the properties\<close>

text \<open>
  The outcome of phase 1 of a SetRequest for one encoded binding (lines 625-634): the
  decode error, or the status of the store's check operation.
\<close>

definition validateBinding ::
  "'mib SnmpCollab \<Rightarrow> 'mib SnmpAgentContext \<Rightarrow> VarBindEnc \<Rightarrow> error_t" where
  "validateBinding env c x = (case x of Malformed e \<Rightarrow> e | Encoded var \<Rightarrow> checkSet env c var)"

text \<open>
  Committing a list of bindings in order: the context after the commits, each one
  counted in \<open>snmpInTotalSetVars\<close>, and whether every commit succeeds.
\<close>

fun commitAll ::
  "'mib SnmpCollab \<Rightarrow> 'mib SnmpAgentContext \<Rightarrow> SnmpVarBind list \<Rightarrow> 'mib SnmpAgentContext" where
  "commitAll env c [] = c"
| "commitAll env c (var # vars) =
     commitAll env (incInTotalSetVars (c\<lparr>mib := snd (commitSet env c var)\<rparr>)) vars"

fun commitsSucceed ::
  "'mib SnmpCollab \<Rightarrow> 'mib SnmpAgentContext \<Rightarrow> SnmpVarBind list \<Rightarrow> bool" where
  "commitsSucceed env c [] = True"
| "commitsSucceed env c (var # vars) =
     (fst (commitSet env c var) = NO_ERROR
      \<and> commitsSucceed env (incInTotalSetVars (c\<lparr>mib := snd (commitSet env c var)\<rparr>)) vars)"

text \<open>
  The context of \<open>snmpProcessSetRequestPdu\<close> at line 613, when the access policy lets
  the request pass and \<open>snmpInitResponse\<close> has produced the response \<open>r\<close>.
\<close>

definition setEntry :: "'mib SnmpAgentContext \<Rightarrow> SnmpMessage \<Rightarrow> 'mib SnmpAgentContext" where
  "setEntry c r = (incInSetRequests c)\<lparr>response := r\<rparr>"

text \<open>
  A response to which the bindings \<open>ws\<close> have been appended, and whether each of them
  fitted when it was appended.
\<close>

definition appendBindings :: "SnmpMessage \<Rightarrow> SnmpVarBind list \<Rightarrow> SnmpMessage" where
  "appendBindings r ws = r\<lparr>varBindList := varBindList r @ map Encoded ws\<rparr>"

fun bindingsFit :: "'mib SnmpCollab \<Rightarrow> SnmpMessage \<Rightarrow> SnmpVarBind list \<Rightarrow> bool" where
  "bindingsFit env r [] = True"
| "bindingsFit env r (w # ws) =
     (writeVarBindingStatus env r w = NO_ERROR
      \<and> bindingsFit env (r\<lparr>varBindList := varBindList r @ [Encoded w]\<rparr>) ws)"

text \<open>The access policy of the handlers (lines 169, 384 and 595).\<close>

definition accessPermits :: "SnmpPduType \<Rightarrow> SnmpAccess \<Rightarrow> bool" where
  "accessPermits t a =
     (if t = SNMP_PDU_SET_REQUEST
      then a = SNMP_ACCESS_WRITE_ONLY \<or> a = SNMP_ACCESS_READ_WRITE
      else a = SNMP_ACCESS_READ_ONLY \<or> a = SNMP_ACCESS_READ_WRITE)"

section \<open>A small agent for concrete runs\<close>

text \<open>
  A store that is a sorted association list from object identifiers to values, a
  response buffer with room for \<open>cap\<close> bindings, and a status translator with the
  entries the examples need. An identifier that extends a stored one names a missing
  instance, the value 238 cannot be read, the value 255 cannot be committed, and the
  empty identifier is the one that \<open>oidCheck\<close> rejects.
\<close>

type_synonym ExMib = "(octet list \<times> octet list) list"

fun exOidLess :: "octet list \<Rightarrow> octet list \<Rightarrow> bool" where
  "exOidLess [] [] = False"
| "exOidLess [] (y # ys) = True"
| "exOidLess (x # xs) [] = False"
| "exOidLess (x # xs) (y # ys) = (x < y \<or> (x = y \<and> exOidLess xs ys))"

definition exInitResponse :: "ExMib SnmpAgentContext \<Rightarrow> error_t \<times> SnmpMessage" where
  "exInitResponse c =
     (NO_ERROR, snmpInitMessage\<lparr>version := version (request c),
                               pduType := SNMP_PDU_GET_RESPONSE,
                               requestId := requestId (request c)\<rparr>)"

definition exOidCheck :: "octet list \<Rightarrow> error_t" where
  "exOidCheck x = (if x = [] then ERROR_OTHER 1 else NO_ERROR)"

definition exGetObjectValue :: "ExMib SnmpAgentContext \<Rightarrow> SnmpVarBind \<Rightarrow> error_t \<times> SnmpVarBind" where
  "exGetObjectValue c var =
     (case map_of (mib c) (oid var) of
        None \<Rightarrow>
          (if map_of (mib c) (butlast (oid var)) = None then (ERROR_OBJECT_NOT_FOUND, var)
           else (ERROR_INSTANCE_NOT_FOUND, var))
      | Some v \<Rightarrow>
          (if v = [238] then (ERROR_OTHER 7, var)
           else (NO_ERROR, var\<lparr>objClass := ASN1_CLASS_UNIVERSAL, objType := 4, varValue := v\<rparr>)))"

definition exGetNextObject :: "ExMib SnmpAgentContext \<Rightarrow> SnmpVarBind \<Rightarrow> error_t \<times> SnmpVarBind" where
  "exGetNextObject c var =
     (case find (\<lambda>kv. exOidLess (oid var) (fst kv)) (mib c) of
        None \<Rightarrow> (ERROR_OBJECT_NOT_FOUND, var)
      | Some kv \<Rightarrow> (NO_ERROR, var\<lparr>oid := fst kv\<rparr>))"

definition exCheckSet :: "ExMib SnmpAgentContext \<Rightarrow> SnmpVarBind \<Rightarrow> error_t" where
  "exCheckSet c var = (if varValue var = [] then ERROR_OTHER 2 else NO_ERROR)"

definition exCommitSet :: "ExMib SnmpAgentContext \<Rightarrow> SnmpVarBind \<Rightarrow> error_t \<times> ExMib" where
  "exCommitSet c var =
     (if varValue var = [255] then (ERROR_OTHER 3, mib c)
      else (NO_ERROR, (oid var, varValue var) # filter (\<lambda>kv. fst kv \<noteq> oid var) (mib c)))"

definition exTranslate :: "SnmpMessage \<Rightarrow> error_t \<Rightarrow> int \<Rightarrow> error_t \<times> SnmpMessage" where
  "exTranslate r e idx =
     (if e = ERROR_BUFFER_OVERFLOW
      then (NO_ERROR, r\<lparr>errorStatus := SNMP_ERROR_TOO_BIG, errorIndex := 0\<rparr>)
      else if e = ERROR_OBJECT_NOT_FOUND \<or> e = ERROR_INSTANCE_NOT_FOUND \<or> e = ERROR_ACCESS_DENIED
      then (NO_ERROR, r\<lparr>errorStatus := 2, errorIndex := idx\<rparr>)
      else if e = ERROR_OTHER 0 then (e, r)
      else (NO_ERROR, r\<lparr>errorStatus := 5, errorIndex := idx\<rparr>))"

definition exEncode :: "32 word \<Rightarrow> error_t \<times> octet list" where
  "exEncode w = (NO_ERROR, [ucast (drop_bit 24 w), ucast (drop_bit 16 w), ucast (drop_bit 8 w), ucast w])"

definition exEnv :: "nat \<Rightarrow> ExMib SnmpCollab" where
  "exEnv cap =
     \<lparr>snmpParsePduHeader = (\<lambda>m. (NO_ERROR, m)),
      snmpWritePduHeader = (\<lambda>m. NO_ERROR),
      snmpInitResponse = exInitResponse,
      snmpComputeMessageOverhead = (\<lambda>m. NO_ERROR),
      oidCheck = exOidCheck,
      snmpGetObjectValue = exGetObjectValue,
      snmpGetNextObject = exGetNextObject,
      checkSet = exCheckSet,
      commitSet = exCommitSet,
      writeVarBindingStatus =
        (\<lambda>r var. if cap \<le> length (varBindList r) then ERROR_BUFFER_OVERFLOW else NO_ERROR),
      copyVarBindingListStatus = (\<lambda>c. NO_ERROR),
      snmpTranslateStatusCode = exTranslate,
      snmpEncodeUnsignedInt32 = exEncode,
      SNMP_MAX_MSG_SIZE = 1452,
      usmStatsUnsupportedSecLevelsObject = [43, 6, 1, 6, 3, 15, 1, 1, 1, 0],
      usmStatsNotInTimeWindowsObject = [43, 6, 1, 6, 3, 15, 1, 1, 2, 0],
      usmStatsUnknownUserNamesObject = [43, 6, 1, 6, 3, 15, 1, 1, 3, 0],
      usmStatsUnknownEngineIdsObject = [43, 6, 1, 6, 3, 15, 1, 1, 4, 0],
      usmStatsWrongDigestsObject = [43, 6, 1, 6, 3, 15, 1, 1, 5, 0],
      usmStatsDecryptionErrorsObject = [43, 6, 1, 6, 3, 15, 1, 1, 6, 0],
      SNMP_AGENT_INFORM_SUPPORT = False,
      snmpProcessGetResponsePdu = (\<lambda>c. (ERROR_NOT_IMPLEMENTED, c)),
      snmpProcessReportPdu = (\<lambda>c. (ERROR_NOT_IMPLEMENTED, c))\<rparr>"

definition exRequest ::
  "SnmpPduType \<Rightarrow> SnmpVersion \<Rightarrow> nat \<Rightarrow> nat \<Rightarrow> VarBindEnc list \<Rightarrow> SnmpMessage" where
  "exRequest t v nr mr vbl =
     snmpInitMessage\<lparr>version := v, pduType := t, requestId := 42, nonRepeaters := nr,
                     maxRepetitions := mr, varBindList := vbl\<rparr>"

definition exContext :: "SnmpAccess \<Rightarrow> SnmpMessage \<Rightarrow> ExMib \<Rightarrow> ExMib SnmpAgentContext" where
  "exContext a req store =
     \<lparr>request = req, response = snmpInitMessage, user = \<lparr>mode = a\<rparr>,
      contextEngine = [128, 0, 31, 136], contextEngineLen = 4, agentContextName = [],
      engineBoots = 1, engineTime = 100, privParameters = [1, 2, 3, 4, 5, 6, 7, 8],
      mib = store,
      mib2SnmpGroup = \<lparr>snmpInGetRequests = 0, snmpInGetNexts = 0, snmpInSetRequests = 0,
                       snmpInBadCommunityUses = 0, snmpInTotalReqVars = 0,
                       snmpInTotalSetVars = 0, snmpOutGetResponses = 0\<rparr>,
      snmpMibInBadCommunityUses = 0,
      snmpUsmMibBase = \<lparr>usmStatsUnsupportedSecLevels = 0, usmStatsNotInTimeWindows = 0,
                        usmStatsUnknownUserNames = 0, usmStatsUnknownEngineIDs = 0,
                        usmStatsWrongDigests = 0, usmStatsDecryptionErrors = 0\<rparr>\<rparr>"

definition exVar :: "octet list \<Rightarrow> octet list \<Rightarrow> SnmpVarBind" where
  "exVar x v = \<lparr>oid = x, objClass = ASN1_CLASS_UNIVERSAL, objType = 4, varValue = v\<rparr>"

definition exStore :: ExMib where
  "exStore = [([1], [10]), ([2], [20]), ([3], [30])]"

definition exSetFaultCtx :: "ExMib SnmpAgentContext" where
  "exSetFaultCtx =
     exContext SNMP_ACCESS_READ_WRITE
       (exRequest SNMP_PDU_SET_REQUEST SNMP_VERSION_2C 0 0
          [Encoded (exVar [1] [11]), Encoded (exVar [2] [255])])
       exStore"

definition exSetInvalidCtx :: "ExMib SnmpAgentContext" where
  "exSetInvalidCtx =
     exContext SNMP_ACCESS_READ_WRITE
       (exRequest SNMP_PDU_SET_REQUEST SNMP_VERSION_2C 0 0
          [Encoded (exVar [1] [11]), Encoded (exVar [2] []), Encoded (exVar [3] [33])])
       exStore"

definition exSetOkCtx :: "ExMib SnmpAgentContext" where
  "exSetOkCtx =
     exContext SNMP_ACCESS_READ_WRITE
       (exRequest SNMP_PDU_SET_REQUEST SNMP_VERSION_2C 0 0
          [Encoded (exVar [1] [11]), Encoded (exVar [2] [22])])
       exStore"

text \<open>
  A request of an authPriv user that falls outside the time window, and a context for
  reports whose usmStatsUnknownUserNames counter is 5.
\<close>

definition exTimeWindowCtx :: "ExMib SnmpAgentContext" where
  "exTimeWindowCtx =
     exContext SNMP_ACCESS_READ_ONLY
       ((exRequest SNMP_PDU_GET_REQUEST SNMP_VERSION_3 0 0 [])
          \<lparr>msgId := 7, msgFlags := 0x07, msgUserName := ''admin'', msgUserNameLen := 5,
           msgAuthParametersLen := 12, msgPrivParametersLen := 8\<rparr>)
       exStore"








text \<open>
  The context of \<open>snmpProcessGetRequestPdu\<close> at line 168, after the request has been
  counted.
\<close>

definition getCounted :: "'mib SnmpAgentContext \<Rightarrow> 'mib SnmpAgentContext" where
  "getCounted c =
     (if pduType (request c) = SNMP_PDU_GET_REQUEST then incInGetRequests c
      else if pduType (request c) = SNMP_PDU_GET_NEXT_REQUEST then incInGetNexts c
      else c)"



text \<open>
  A SetRequest and a GetRequest for the one binding whose object identifier is empty,
  which \<open>oidCheck\<close> rejects.
\<close>

definition exSetBadOidCtx :: "ExMib SnmpAgentContext" where
  "exSetBadOidCtx =
     exContext SNMP_ACCESS_READ_WRITE
       (exRequest SNMP_PDU_SET_REQUEST SNMP_VERSION_2C 0 0 [Encoded (exVar [] [9])])
       exStore"

definition exGetBadOidCtx :: "ExMib SnmpAgentContext" where
  "exGetBadOidCtx =
     exContext SNMP_ACCESS_READ_WRITE
       (exRequest SNMP_PDU_GET_REQUEST SNMP_VERSION_2C 0 0 [Encoded (exVar [] [9])])
       exStore"

text \<open>
  Notions for the loop of \<open>snmpProcessGetBulkRequestPdu\<close>: whether the iteration is at
  the first repeated binding (line 414) and the value of \<open>m\<close> after line 421.
\<close>

definition bulkFirst :: "'mib BulkState \<Rightarrow> bool" where
  "bulkFirst s = (bs_index s - 1 = int (nonRepeaters (request (bs_ctx s))))"

definition bulkMark :: "'mib BulkState \<Rightarrow> nat" where
  "bulkMark s = (if bulkFirst s then length (varBindList (response (bs_ctx s))) else bs_m s)"

text \<open>
  The invariant of the loop at the test of \<open>length > 0\<close>, for a request \<open>req0\<close> with \<open>N\<close>
  bindings and a response that held \<open>L0\<close> bindings when the loop was entered, and what
  it gives when the loop is left.
\<close>

definition bulkInv :: "SnmpMessage \<Rightarrow> nat \<Rightarrow> nat \<Rightarrow> 'mib BulkState \<Rightarrow> bool" where
  "bulkInv req0 N L0 s =
     (let R = nonRepeaters req0; M0 = maxRepetitions req0;
          M = maxRepetitions (request (bs_ctx s));
          len = length (varBindList (response (bs_ctx s)))
      in request (bs_ctx s) = req0\<lparr>maxRepetitions := M\<rparr> \<and> M \<le> M0
         \<and> 1 \<le> bs_index s \<and> int (length (bs_p s)) + bs_index s = int N + 1
         \<and> len = L0 + nat (bs_index s - 1) + (N - R) * (M0 - M)
         \<and> (M < M0 \<longrightarrow> R < N \<and> 1 \<le> M \<and> int R + 1 \<le> bs_index s)
         \<and> (int R + 1 < bs_index s \<longrightarrow> 1 \<le> M \<and> bs_m s = L0 + R + (N - R) * (M0 - M))
         \<and> (bs_p s = [] \<longrightarrow> N \<le> R))"

definition bulkFinal :: "SnmpMessage \<Rightarrow> nat \<Rightarrow> nat \<Rightarrow> 'mib BulkState \<Rightarrow> bool" where
  "bulkFinal req0 N L0 s =
     (let R = nonRepeaters req0; M0 = maxRepetitions req0;
          M = maxRepetitions (request (bs_ctx s));
          len = length (varBindList (response (bs_ctx s)))
      in request (bs_ctx s) = req0\<lparr>maxRepetitions := M\<rparr> \<and> M \<le> M0
         \<and> M0 - M = (if R < N then (len - L0 - R) div (N - R) else 0)
         \<and> len \<le> L0 + min N R + (N - R) * M0)"

text \<open>A binding that carries the endOfMibView exception.\<close>

definition isEndOfMibView :: "SnmpVarBind \<Rightarrow> bool" where
  "isEndOfMibView w =
     (objClass w = ASN1_CLASS_CONTEXT_SPECIFIC \<and> objType w = SNMP_EXCEPTION_END_OF_MIB_VIEW
      \<and> varValue w = [])"

text \<open>GetBulkRequests on the store of the examples.\<close>

definition exBulkCtx :: "nat \<Rightarrow> nat \<Rightarrow> VarBindEnc list \<Rightarrow> ExMib SnmpAgentContext" where
  "exBulkCtx nr mr vbl =
     exContext SNMP_ACCESS_READ_ONLY
       (exRequest SNMP_PDU_GET_BULK_REQUEST SNMP_VERSION_2C nr mr vbl) exStore"

definition exBulkTwoCtx :: "ExMib SnmpAgentContext" where
  "exBulkTwoCtx = exBulkCtx 1 2 [Encoded (exVar [0] []), Encoded (exVar [1] [])]"

definition exBulkWalkCtx :: "ExMib SnmpAgentContext" where
  "exBulkWalkCtx = exBulkCtx 0 5 [Encoded (exVar [0] [])]"

definition exBulkLastCtx :: "ExMib SnmpAgentContext" where
  "exBulkLastCtx = exBulkCtx 0 5 [Encoded (exVar [3] [])]"

definition exBulkLastState :: "ExMib BulkState" where
  "exBulkLastState = bulkInit (exBulkLastCtx\<lparr>response := snd (exInitResponse exBulkLastCtx)\<rparr>)"

definition exBulkWalkState :: "ExMib BulkState" where
  "exBulkWalkState = bulkInit (exBulkWalkCtx\<lparr>response := snd (exInitResponse exBulkWalkCtx)\<rparr>)"

text \<open>
  A GetRequest presented with a write-only access mode, a SetRequest presented with a
  read-only access mode, and a GetBulkRequest in an SNMPv1 message.
\<close>

definition exGetDeniedCtx :: "ExMib SnmpAgentContext" where
  "exGetDeniedCtx =
     exContext SNMP_ACCESS_WRITE_ONLY
       (exRequest SNMP_PDU_GET_REQUEST SNMP_VERSION_2C 0 0 [Encoded (exVar [1] [])]) exStore"

definition exSetDeniedCtx :: "ExMib SnmpAgentContext" where
  "exSetDeniedCtx =
     exContext SNMP_ACCESS_READ_ONLY
       (exRequest SNMP_PDU_SET_REQUEST SNMP_VERSION_2C 0 0 [Encoded (exVar [1] [11])]) exStore"

definition exBulkV1Ctx :: "ExMib SnmpAgentContext" where
  "exBulkV1Ctx =
     exContext SNMP_ACCESS_READ_ONLY
       (exRequest SNMP_PDU_GET_BULK_REQUEST SNMP_VERSION_1 0 1 [Encoded (exVar [1] [])]) exStore"




text \<open>
  A GetBulkRequest with one non-repeater and no repetition on a store whose first object
  cannot be read, and a GetBulkRequest whose two bindings are both non-repeaters.
\<close>

definition exBulkFaultCtx :: "ExMib SnmpAgentContext" where
  "exBulkFaultCtx =
     exContext SNMP_ACCESS_READ_ONLY
       (exRequest SNMP_PDU_GET_BULK_REQUEST SNMP_VERSION_2C 1 0
          [Encoded (exVar [0] []), Encoded (exVar [1] [])])
       [([1], [238]), ([2], [20])]"


section \<open>Unfolding the loops\<close>

declare setLoop.simps [simp del] getLoop.simps [simp del] bulkLoop.simps [simp del]

lemmas ex_simps =
  exEnv_def exContext_def exRequest_def exVar_def exStore_def exInitResponse_def
  exOidCheck_def exGetObjectValue_def exGetNextObject_def exCheckSet_def exCommitSet_def
  exTranslate_def snmpInitMessage_def

section \<open>SetRequest-PDU: validation, then commit\<close>

lemma setLoop_Nil: "setLoop env commit c idx [] = (NO_ERROR, idx, c)"
  by (simp add: setLoop.simps)

lemma setLoop_Malformed: "setLoop env commit c idx (Malformed e # rest) = (e, idx, c)"
  by (simp add: setLoop.simps)

lemma setLoop_Encoded:
  "setLoop env commit c idx (Encoded var # rest) =
     (case snmpSetObjectValue env c var commit of
        (e, c') \<Rightarrow>
          if e \<noteq> NO_ERROR then (e, idx, c')
          else setLoop env commit (if commit then incInTotalSetVars c' else c') (idx + 1) rest)"
  by (subst setLoop.simps) (simp split: prod.splits)

lemma setLoop_check_pass:
  "\<forall>var\<in>set vars. checkSet env c var = NO_ERROR \<Longrightarrow>
   setLoop env False c idx (map Encoded vars @ rest) =
     setLoop env False c (idx + int (length vars)) rest"
  by (induction vars arbitrary: idx)
     (simp_all add: setLoop_Encoded snmpSetObjectValue_def add.assoc)

lemma setLoop_check_stop:
  "validateBinding env c x = e \<Longrightarrow> e \<noteq> NO_ERROR \<Longrightarrow>
   setLoop env False c idx (x # rest) = (e, idx, c)"
  by (cases x)
     (auto simp: setLoop_Encoded setLoop_Malformed snmpSetObjectValue_def validateBinding_def)

lemma setLoop_commit_pass:
  "commitsSucceed env c vars \<Longrightarrow>
   setLoop env True c idx (map Encoded vars @ rest) =
     setLoop env True (commitAll env c vars) (idx + int (length vars)) rest"
proof (induction vars arbitrary: idx c)
  case Nil
  then show ?case by simp
next
  case (Cons var vars)
  obtain st where st: "commitSet env c var = (NO_ERROR, st)"
    using Cons.prems by (cases "commitSet env c var") simp
  from Cons.prems st
  have ok: "commitsSucceed env (incInTotalSetVars (c\<lparr>mib := st\<rparr>)) vars"
    by simp
  show ?case
    using Cons.IH [OF ok, of "idx + 1"] st
    by (simp add: setLoop_Encoded snmpSetObjectValue_def add.assoc)
qed

lemma setLoop_commit_stop:
  "fst (commitSet env c var) = e \<Longrightarrow> e \<noteq> NO_ERROR \<Longrightarrow>
   setLoop env True c idx (Encoded var # rest) = (e, idx, c\<lparr>mib := snd (commitSet env c var)\<rparr>)"
  by (auto simp: setLoop_Encoded snmpSetObjectValue_def split: prod.splits)

lemma commitAll_request [simp]: "request (commitAll env c vars) = request c"
  by (induction vars arbitrary: c) (simp_all add: incInTotalSetVars_def)

lemma commitAll_response [simp]: "response (commitAll env c vars) = response c"
  by (induction vars arbitrary: c) (simp_all add: incInTotalSetVars_def)

lemma commitAll_count:
  "snmpInTotalSetVars (mib2SnmpGroup (commitAll env c vars)) =
     snmpInTotalSetVars (mib2SnmpGroup c) + of_nat (length vars)"
  by (induction vars arbitrary: c) (simp_all add: incInTotalSetVars_def)

lemma incInSetRequests_sel [simp]:
  "request (incInSetRequests c) = request c"
  "response (incInSetRequests c) = response c"
  "user (incInSetRequests c) = user c"
  "mib (incInSetRequests c) = mib c"
  "snmpInTotalSetVars (mib2SnmpGroup (incInSetRequests c)) = snmpInTotalSetVars (mib2SnmpGroup c)"
  by (simp_all add: incInSetRequests_def)

lemma setEntry_sel [simp]:
  "request (setEntry c r) = request c"
  "response (setEntry c r) = r"
  "user (setEntry c r) = user c"
  "mib (setEntry c r) = mib c"
  "snmpInTotalSetVars (mib2SnmpGroup (setEntry c r)) = snmpInTotalSetVars (mib2SnmpGroup c)"
  by (simp_all add: setEntry_def)

lemma set_handler_run:
  assumes mode: "accessPermits SNMP_PDU_SET_REQUEST (mode (user c))"
    and init: "snmpInitResponse env (incInSetRequests c) = (NO_ERROR, r)"
    and phase1: "setLoop env False (setEntry c r) 1 (varBindList (request c)) = (e1, idx1, c1)"
    and phase2: "(if e1 = NO_ERROR then setLoop env True c1 1 (varBindList (request c1))
                  else (e1, idx1, c1)) = (e2, idx2, c2)"
  shows "snmpProcessSetRequestPdu env c =
           (if e2 \<noteq> NO_ERROR
            then (case snmpTranslateStatusCode env (response c2) e2 idx2 of
                    (e3, r3) \<Rightarrow>
                      if e3 \<noteq> NO_ERROR then (e3, c2\<lparr>response := r3\<rparr>)
                      else snmpCopyVarBindingList env (c2\<lparr>response := r3\<rparr>))
            else snmpCopyVarBindingList env c2)"
proof -
  have m: "\<not> (mode (user (incInSetRequests c)) \<noteq> SNMP_ACCESS_WRITE_ONLY
              \<and> mode (user (incInSetRequests c)) \<noteq> SNMP_ACCESS_READ_WRITE)"
    using mode by (simp add: accessPermits_def)
  have p1: "setLoop env False ((incInSetRequests c)\<lparr>response := r\<rparr>) 1
              (varBindList (request ((incInSetRequests c)\<lparr>response := r\<rparr>))) = (e1, idx1, c1)"
    using phase1 by (simp add: setEntry_def)
  show ?thesis
    unfolding snmpProcessSetRequestPdu_def Let_def
    by (simp only: m if_False init prod.case p1 phase2 simp_thms error_t.simps)
qed

lemma set_phase1_failure:
  assumes mode: "accessPermits SNMP_PDU_SET_REQUEST (mode (user c))"
    and init: "snmpInitResponse env (incInSetRequests c) = (NO_ERROR, r)"
    and list: "varBindList (request c) = map Encoded pre @ x # post"
    and pre: "\<forall>var\<in>set pre. checkSet env (setEntry c r) var = NO_ERROR"
    and x: "validateBinding env (setEntry c r) x = e" "e \<noteq> NO_ERROR"
  shows "snmpProcessSetRequestPdu env c =
           (case snmpTranslateStatusCode env r e (int (length pre) + 1) of
              (e3, r3) \<Rightarrow>
                if e3 \<noteq> NO_ERROR then (e3, (setEntry c r)\<lparr>response := r3\<rparr>)
                else snmpCopyVarBindingList env ((setEntry c r)\<lparr>response := r3\<rparr>))"
proof -
  have loop: "setLoop env False (setEntry c r) 1 (varBindList (request c)) =
                (e, int (length pre) + 1, setEntry c r)"
    using pre x by (simp add: list setLoop_check_pass setLoop_check_stop add.commute)
  show ?thesis
    using set_handler_run [OF mode init loop, of e "int (length pre) + 1" "setEntry c r"] x(2)
    by simp
qed

lemma set_all_committed:
  assumes mode: "accessPermits SNMP_PDU_SET_REQUEST (mode (user c))"
    and init: "snmpInitResponse env (incInSetRequests c) = (NO_ERROR, r)"
    and list: "varBindList (request c) = map Encoded vars"
    and chk: "\<forall>var\<in>set vars. checkSet env (setEntry c r) var = NO_ERROR"
    and com: "commitsSucceed env (setEntry c r) vars"
  shows "snmpProcessSetRequestPdu env c =
           snmpCopyVarBindingList env (commitAll env (setEntry c r) vars)"
proof -
  have p1: "setLoop env False (setEntry c r) 1 (varBindList (request c)) =
              (NO_ERROR, 1 + int (length vars), setEntry c r)"
    using setLoop_check_pass [OF chk, of 1 "[]"] by (simp add: list setLoop_Nil)
  have p2: "setLoop env True (setEntry c r) 1 (varBindList (request (setEntry c r))) =
              (NO_ERROR, 1 + int (length vars), commitAll env (setEntry c r) vars)"
    using setLoop_commit_pass [OF com, of 1 "[]"] by (simp add: list setLoop_Nil)
  show ?thesis
    using set_handler_run [OF mode init p1, of NO_ERROR "1 + int (length vars)"
        "commitAll env (setEntry c r) vars"] p2
    by simp
qed

lemma set_commit_fault:
  assumes mode: "accessPermits SNMP_PDU_SET_REQUEST (mode (user c))"
    and init: "snmpInitResponse env (incInSetRequests c) = (NO_ERROR, r)"
    and list: "varBindList (request c) = map Encoded (pre @ var # post)"
    and chk: "\<forall>v\<in>set (pre @ var # post). checkSet env (setEntry c r) v = NO_ERROR"
    and com: "commitsSucceed env (setEntry c r) pre"
    and fault: "fst (commitSet env (commitAll env (setEntry c r) pre) var) = e" "e \<noteq> NO_ERROR"
  shows "snmpProcessSetRequestPdu env c =
           (let c2 = (commitAll env (setEntry c r) pre)
                       \<lparr>mib := snd (commitSet env (commitAll env (setEntry c r) pre) var)\<rparr>
            in case snmpTranslateStatusCode env r e (int (length pre) + 1) of
                 (e3, r3) \<Rightarrow>
                   if e3 \<noteq> NO_ERROR then (e3, c2\<lparr>response := r3\<rparr>)
                   else snmpCopyVarBindingList env (c2\<lparr>response := r3\<rparr>))"
proof -
  let ?cI = "setEntry c r"
  let ?c2 = "(commitAll env ?cI pre)\<lparr>mib := snd (commitSet env (commitAll env ?cI pre) var)\<rparr>"
  have p1: "setLoop env False ?cI 1 (varBindList (request c)) =
              (NO_ERROR, 1 + int (length (pre @ var # post)), ?cI)"
    using setLoop_check_pass [OF chk, of 1 "[]"] by (simp add: list setLoop_Nil)
  have p2: "setLoop env True ?cI 1 (varBindList (request ?cI)) = (e, int (length pre) + 1, ?c2)"
    using setLoop_commit_pass [OF com, of 1 "Encoded var # map Encoded post"]
      setLoop_commit_stop [OF fault, of "1 + int (length pre)" "map Encoded post"]
    by (simp add: list add.commute)
  show ?thesis
    using set_handler_run [OF mode init p1, of e "int (length pre) + 1" ?c2] p2 fault(2)
    by (simp add: Let_def)
qed


lemma snmpCopyVarBindingList_frame [simp]:
  "mib (snd (snmpCopyVarBindingList env c)) = mib c"
  "mib2SnmpGroup (snd (snmpCopyVarBindingList env c)) = mib2SnmpGroup c"
  "request (snd (snmpCopyVarBindingList env c)) = request c"
  by (simp_all add: snmpCopyVarBindingList_def Let_def)

lemmas set_eval =
  snmpProcessSetRequestPdu_def setLoop_Nil setLoop_Malformed setLoop_Encoded
  snmpSetObjectValue_def snmpCopyVarBindingList_def incInSetRequests_def
  incInTotalSetVars_def incBadCommunityUses_def Let_def

text \<open>
  Claim C1, as the code has it. A SetRequest is processed in two phases. If a binding
  fails phase 1 (it does not decode, or the store's check operation rejects it), no
  binding is committed: the store and the count of committed variables are as before the
  request, and the Status Translator is given the 1-based index of the failing binding.
  If every binding passes phase 1 and every commit succeeds, all bindings are committed
  in request order. If every binding passes phase 1 and a commit fails, the bindings
  before it stay committed (nothing is rolled back) and the Status Translator is given the
  1-based index of the binding whose commit failed.
\<close>

theorem set_request_validate_then_commit:
  assumes mode: "accessPermits SNMP_PDU_SET_REQUEST (mode (user c))"
    and init: "snmpInitResponse env (incInSetRequests c) = (NO_ERROR, r)"
  shows
    "(varBindList (request c) = map Encoded pre @ x # post
        \<and> (\<forall>v\<in>set pre. checkSet env (setEntry c r) v = NO_ERROR)
        \<and> validateBinding env (setEntry c r) x \<noteq> NO_ERROR
      \<longrightarrow> snmpProcessSetRequestPdu env c =
            (case snmpTranslateStatusCode env r (validateBinding env (setEntry c r) x)
                    (int (length pre) + 1) of
               (e3, r3) \<Rightarrow>
                 if e3 \<noteq> NO_ERROR then (e3, (setEntry c r)\<lparr>response := r3\<rparr>)
                 else snmpCopyVarBindingList env ((setEntry c r)\<lparr>response := r3\<rparr>))
          \<and> mib (snd (snmpProcessSetRequestPdu env c)) = mib c
          \<and> snmpInTotalSetVars (mib2SnmpGroup (snd (snmpProcessSetRequestPdu env c))) =
              snmpInTotalSetVars (mib2SnmpGroup c))
     \<and> (varBindList (request c) = map Encoded vars
        \<and> (\<forall>v\<in>set vars. checkSet env (setEntry c r) v = NO_ERROR)
        \<and> commitsSucceed env (setEntry c r) vars
      \<longrightarrow> snmpProcessSetRequestPdu env c =
            snmpCopyVarBindingList env (commitAll env (setEntry c r) vars)
          \<and> snmpInTotalSetVars (mib2SnmpGroup (snd (snmpProcessSetRequestPdu env c))) =
              snmpInTotalSetVars (mib2SnmpGroup c) + of_nat (length vars))
     \<and> (varBindList (request c) = map Encoded (done @ var # todo)
        \<and> (\<forall>v\<in>set (done @ var # todo). checkSet env (setEntry c r) v = NO_ERROR)
        \<and> commitsSucceed env (setEntry c r) done
        \<and> fst (commitSet env (commitAll env (setEntry c r) done) var) \<noteq> NO_ERROR
      \<longrightarrow> mib (snd (snmpProcessSetRequestPdu env c)) =
            snd (commitSet env (commitAll env (setEntry c r) done) var)
          \<and> snmpInTotalSetVars (mib2SnmpGroup (snd (snmpProcessSetRequestPdu env c))) =
              snmpInTotalSetVars (mib2SnmpGroup c) + of_nat (length done)
          \<and> snmpProcessSetRequestPdu env c =
              (case snmpTranslateStatusCode env r
                      (fst (commitSet env (commitAll env (setEntry c r) done) var))
                      (int (length done) + 1) of
                 (e3, r3) \<Rightarrow>
                   if e3 \<noteq> NO_ERROR
                   then (e3, (commitAll env (setEntry c r) done)
                          \<lparr>mib := snd (commitSet env (commitAll env (setEntry c r) done) var),
                           response := r3\<rparr>)
                   else snmpCopyVarBindingList env
                          ((commitAll env (setEntry c r) done)
                             \<lparr>mib := snd (commitSet env (commitAll env (setEntry c r) done) var),
                              response := r3\<rparr>)))"
proof (intro conjI impI)
  assume a: "varBindList (request c) = map Encoded pre @ x # post
        \<and> (\<forall>v\<in>set pre. checkSet env (setEntry c r) v = NO_ERROR)
        \<and> validateBinding env (setEntry c r) x \<noteq> NO_ERROR"
  then have h: "snmpProcessSetRequestPdu env c =
            (case snmpTranslateStatusCode env r (validateBinding env (setEntry c r) x)
                    (int (length pre) + 1) of
               (e3, r3) \<Rightarrow>
                 if e3 \<noteq> NO_ERROR then (e3, (setEntry c r)\<lparr>response := r3\<rparr>)
                 else snmpCopyVarBindingList env ((setEntry c r)\<lparr>response := r3\<rparr>))"
    using set_phase1_failure [OF mode init, of pre x post] by simp
  show "snmpProcessSetRequestPdu env c =
            (case snmpTranslateStatusCode env r (validateBinding env (setEntry c r) x)
                    (int (length pre) + 1) of
               (e3, r3) \<Rightarrow>
                 if e3 \<noteq> NO_ERROR then (e3, (setEntry c r)\<lparr>response := r3\<rparr>)
                 else snmpCopyVarBindingList env ((setEntry c r)\<lparr>response := r3\<rparr>))"
    by (rule h)
  show "mib (snd (snmpProcessSetRequestPdu env c)) = mib c"
    by (simp add: h split: prod.splits)
  show "snmpInTotalSetVars (mib2SnmpGroup (snd (snmpProcessSetRequestPdu env c))) =
              snmpInTotalSetVars (mib2SnmpGroup c)"
    by (simp add: h split: prod.splits)
next
  assume a: "varBindList (request c) = map Encoded vars
        \<and> (\<forall>v\<in>set vars. checkSet env (setEntry c r) v = NO_ERROR)
        \<and> commitsSucceed env (setEntry c r) vars"
  then have h: "snmpProcessSetRequestPdu env c =
            snmpCopyVarBindingList env (commitAll env (setEntry c r) vars)"
    using set_all_committed [OF mode init, of vars] by simp
  show "snmpProcessSetRequestPdu env c =
            snmpCopyVarBindingList env (commitAll env (setEntry c r) vars)"
    by (rule h)
  show "snmpInTotalSetVars (mib2SnmpGroup (snd (snmpProcessSetRequestPdu env c))) =
              snmpInTotalSetVars (mib2SnmpGroup c) + of_nat (length vars)"
    by (simp add: h commitAll_count)
next
  assume a: "varBindList (request c) = map Encoded (done @ var # todo)
        \<and> (\<forall>v\<in>set (done @ var # todo). checkSet env (setEntry c r) v = NO_ERROR)
        \<and> commitsSucceed env (setEntry c r) done
        \<and> fst (commitSet env (commitAll env (setEntry c r) done) var) \<noteq> NO_ERROR"
  let ?e = "fst (commitSet env (commitAll env (setEntry c r) done) var)"
  from a have h: "snmpProcessSetRequestPdu env c =
           (let c2 = (commitAll env (setEntry c r) done)
                       \<lparr>mib := snd (commitSet env (commitAll env (setEntry c r) done) var)\<rparr>
            in case snmpTranslateStatusCode env r ?e (int (length done) + 1) of
                 (e3, r3) \<Rightarrow>
                   if e3 \<noteq> NO_ERROR then (e3, c2\<lparr>response := r3\<rparr>)
                   else snmpCopyVarBindingList env (c2\<lparr>response := r3\<rparr>))"
    using set_commit_fault [OF mode init, of "done" var todo ?e] by simp
  show "mib (snd (snmpProcessSetRequestPdu env c)) =
            snd (commitSet env (commitAll env (setEntry c r) done) var)"
    by (simp add: h Let_def split: prod.splits)
  show "snmpInTotalSetVars (mib2SnmpGroup (snd (snmpProcessSetRequestPdu env c))) =
              snmpInTotalSetVars (mib2SnmpGroup c) + of_nat (length done)"
    by (simp add: h Let_def commitAll_count split: prod.splits)
  show "snmpProcessSetRequestPdu env c =
              (case snmpTranslateStatusCode env r ?e (int (length done) + 1) of
                 (e3, r3) \<Rightarrow>
                   if e3 \<noteq> NO_ERROR
                   then (e3, (commitAll env (setEntry c r) done)
                          \<lparr>mib := snd (commitSet env (commitAll env (setEntry c r) done) var),
                           response := r3\<rparr>)
                   else snmpCopyVarBindingList env
                          ((commitAll env (setEntry c r) done)
                             \<lparr>mib := snd (commitSet env (commitAll env (setEntry c r) done) var),
                              response := r3\<rparr>))"
    by (simp add: h Let_def)
qed


text \<open>
  Claim C1 as stated fails: with two bindings that both pass phase 1, where the commit
  of the second one fails in the store, the first binding is committed and the second
  is not, so neither all nor none of the bindings are committed.
\<close>

theorem set_all_or_none_counterexample:
  "fst (snmpProcessSetRequestPdu (exEnv 10) exSetFaultCtx) = NO_ERROR
   \<and> mib exSetFaultCtx = [([1], [10]), ([2], [20]), ([3], [30])]
   \<and> mib (snd (snmpProcessSetRequestPdu (exEnv 10) exSetFaultCtx)) =
       [([1], [11]), ([2], [20]), ([3], [30])]
   \<and> errorIndex (response (snd (snmpProcessSetRequestPdu (exEnv 10) exSetFaultCtx))) = 2"
  by (simp add: exSetFaultCtx_def ex_simps set_eval)

theorem set_request_validate_then_commit_witness:
  "mib (snd (snmpProcessSetRequestPdu (exEnv 10) exSetInvalidCtx)) = mib exSetInvalidCtx
   \<and> errorIndex (response (snd (snmpProcessSetRequestPdu (exEnv 10) exSetInvalidCtx))) = 2
   \<and> varBindList (response (snd (snmpProcessSetRequestPdu (exEnv 10) exSetInvalidCtx))) =
       varBindList (request exSetInvalidCtx)
   \<and> mib (snd (snmpProcessSetRequestPdu (exEnv 10) exSetOkCtx)) =
       [([2], [22]), ([1], [11]), ([3], [30])]
   \<and> snmpInTotalSetVars (mib2SnmpGroup (snd (snmpProcessSetRequestPdu (exEnv 10) exSetOkCtx))) = 2
   \<and> mib (snd (snmpProcessSetRequestPdu (exEnv 10) exSetFaultCtx)) =
       [([1], [11]), ([2], [20]), ([3], [30])]
   \<and> snmpInTotalSetVars (mib2SnmpGroup (snd (snmpProcessSetRequestPdu (exEnv 10) exSetFaultCtx))) = 1"
proof -
  have m1: "accessPermits SNMP_PDU_SET_REQUEST (mode (user exSetInvalidCtx))"
    and m2: "accessPermits SNMP_PDU_SET_REQUEST (mode (user exSetOkCtx))"
    and m3: "accessPermits SNMP_PDU_SET_REQUEST (mode (user exSetFaultCtx))"
    by (simp_all add: accessPermits_def exSetInvalidCtx_def exSetOkCtx_def exSetFaultCtx_def
          exContext_def)
  have i1: "snmpInitResponse (exEnv 10) (incInSetRequests exSetInvalidCtx) =
              (NO_ERROR, snd (exInitResponse (incInSetRequests exSetInvalidCtx)))"
    and i2: "snmpInitResponse (exEnv 10) (incInSetRequests exSetOkCtx) =
              (NO_ERROR, snd (exInitResponse (incInSetRequests exSetOkCtx)))"
    and i3: "snmpInitResponse (exEnv 10) (incInSetRequests exSetFaultCtx) =
              (NO_ERROR, snd (exInitResponse (incInSetRequests exSetFaultCtx)))"
    by (simp_all add: exEnv_def exInitResponse_def)
  note a = set_request_validate_then_commit [OF m1 i1,
      of "[exVar [1] [11]]" "Encoded (exVar [2] [])" "[Encoded (exVar [3] [33])]" "[]" "[]"
         "exVar [1] [11]" "[]"]
  note b = set_request_validate_then_commit [OF m2 i2,
      of "[]" "Malformed NO_ERROR" "[]" "[exVar [1] [11], exVar [2] [22]]" "[]"
         "exVar [1] [11]" "[]"]
  note c = set_request_validate_then_commit [OF m3 i3,
      of "[]" "Malformed NO_ERROR" "[]" "[]" "[exVar [1] [11]]" "exVar [2] [255]" "[]"]
  show ?thesis
    using a b c
    by (simp add: exSetInvalidCtx_def exSetOkCtx_def exSetFaultCtx_def ex_simps
          validateBinding_def setEntry_def incInSetRequests_def incInTotalSetVars_def
          snmpCopyVarBindingList_def Let_def)
qed

section \<open>Report-PDU: flags and counters\<close>

lemmas report_eval =
  snmpFormatReportPdu_def reportHeader_def reportCounter_def snmpWriteVarBinding_def Let_def

text \<open>
  Claim C2 fails on the code: for the cause not-in-time-window the response flags are the
  request's flags masked with the authentication and privacy bits, so a request that
  carries both flags gets a report with both flags, not an authNoPriv one, although the
  comment at lines 748-750 asks for authNoPriv. The run below is the report for a
  request with msgFlags 7 (authentication, privacy, reportable).
\<close>

theorem report_not_in_time_window_flags:
  "msgFlags (request exTimeWindowCtx) = 0x07
   \<and> fst (snmpFormatReportPdu (exEnv 10) exTimeWindowCtx ERROR_NOT_IN_TIME_WINDOW) = NO_ERROR
   \<and> msgFlags (response (snd (snmpFormatReportPdu (exEnv 10) exTimeWindowCtx
         ERROR_NOT_IN_TIME_WINDOW))) = SNMP_MSG_FLAG_AUTH OR SNMP_MSG_FLAG_PRIV
   \<and> msgFlags (response (snd (snmpFormatReportPdu (exEnv 10) exTimeWindowCtx
         ERROR_NOT_IN_TIME_WINDOW))) \<noteq> SNMP_MSG_FLAG_AUTH"
  by (simp add: exTimeWindowCtx_def ex_simps report_eval exEncode_def
        SNMP_MSG_FLAG_AUTH_def SNMP_MSG_FLAG_PRIV_def)

lemma reportHeader_flags:
  "msgFlags (reportHeader env c ERROR_NOT_IN_TIME_WINDOW) =
     msgFlags (request c) AND (SNMP_MSG_FLAG_AUTH OR SNMP_MSG_FLAG_PRIV)"
  by (simp add: reportHeader_def)




lemma reportHeader_varBindList [simp]: "varBindList (reportHeader env c e) = []"
  by (simp add: reportHeader_def snmpInitMessage_def Let_def)





section \<open>GetRequest-PDU: exceptions and aborts\<close>

lemma getLoop_Nil: "getLoop env c idx [] = (NO_ERROR, idx, c)"
  by (simp add: getLoop.simps)

lemma getLoop_Malformed: "getLoop env c idx (Malformed e # rest) = (e, idx, c)"
  by (simp add: getLoop.simps)

lemma getLoop_Encoded:
  "getLoop env c idx (Encoded var # rest) =
     (case getVar env c var of
        Inl (e, c') \<Rightarrow> (e, idx, c')
      | Inr c' \<Rightarrow> getLoop env c' (idx + 1) rest)"
  by (subst getLoop.simps) (simp split: sum.splits prod.splits)

lemma getCounted_sel [simp]:
  "request (getCounted c) = request c"
  "response (getCounted c) = response c"
  "user (getCounted c) = user c"
  "mib (getCounted c) = mib c"
  by (simp_all add: getCounted_def incInGetRequests_def incInGetNexts_def)



lemma get_handler_run:
  assumes mode: "mode (user c) = SNMP_ACCESS_READ_ONLY \<or> mode (user c) = SNMP_ACCESS_READ_WRITE"
    and init: "snmpInitResponse env (getCounted c) = (NO_ERROR, r)"
    and loop: "getLoop env ((getCounted c)\<lparr>response := r\<rparr>) 1 (varBindList (request c)) =
                 (e1, k, c1)"
  shows "snmpProcessGetRequestPdu env c =
           (if e1 \<noteq> NO_ERROR
            then (case snmpTranslateStatusCode env (response c1) e1 k of
                    (e2, r2) \<Rightarrow>
                      if e2 \<noteq> NO_ERROR then (e2, c1\<lparr>response := r2\<rparr>)
                      else if version r2 \<noteq> SNMP_VERSION_1 \<and> errorStatus r2 = SNMP_ERROR_TOO_BIG
                      then (NO_ERROR, c1\<lparr>response := r2\<lparr>varBindList := []\<rparr>\<rparr>)
                      else (case snmpCopyVarBindingList env (c1\<lparr>response := r2\<rparr>) of
                              (e3, c3) \<Rightarrow> if e3 \<noteq> NO_ERROR then (e3, c3) else (NO_ERROR, c3)))
            else (NO_ERROR, c1))"
proof -
  have m: "\<not> (mode (user (getCounted c)) \<noteq> SNMP_ACCESS_READ_ONLY
              \<and> mode (user (getCounted c)) \<noteq> SNMP_ACCESS_READ_WRITE)"
    using mode by auto
  have l: "getLoop env ((getCounted c)\<lparr>response := r\<rparr>) 1
             (varBindList (request ((getCounted c)\<lparr>response := r\<rparr>))) = (e1, k, c1)"
    using loop by simp
  show ?thesis
    unfolding snmpProcessGetRequestPdu_def getCounted_def [symmetric] Let_def
    by (simp only: m if_False init prod.case l simp_thms error_t.simps)
qed


lemmas get_eval =
  snmpProcessGetRequestPdu_def getLoop_Nil getLoop_Malformed getLoop_Encoded getVar_def
  getFetch_def getCatch_def snmpWriteVarBinding_def snmpCopyVarBindingList_def
  setException_def incInGetRequests_def incInGetNexts_def incInTotalReqVars_def
  incBadCommunityUses_def Let_def


section \<open>PDU dispatch: what reaches the caller\<close>

lemma snmpCopyVarBindingList_status:
  "fst (snmpCopyVarBindingList env c) = copyVarBindingListStatus env c"
  by (simp add: snmpCopyVarBindingList_def Let_def)

lemma get_handler_denied:
  "\<not> (mode (user c) = SNMP_ACCESS_READ_ONLY \<or> mode (user c) = SNMP_ACCESS_READ_WRITE) \<Longrightarrow>
   snmpProcessGetRequestPdu env c = (ERROR_ACCESS_DENIED, incBadCommunityUses (getCounted c))"
  by (simp add: snmpProcessGetRequestPdu_def getCounted_def [symmetric] Let_def)

lemma get_handler_error_origin:
  assumes mode: "mode (user c) = SNMP_ACCESS_READ_ONLY \<or> mode (user c) = SNMP_ACCESS_READ_WRITE"
    and err: "fst (snmpProcessGetRequestPdu env c) \<noteq> NO_ERROR"
  shows "(\<exists>c'. fst (snmpInitResponse env c') = fst (snmpProcessGetRequestPdu env c))
       \<or> (\<exists>r e' i. fst (snmpTranslateStatusCode env r e' i) = fst (snmpProcessGetRequestPdu env c))
       \<or> (\<exists>c'. copyVarBindingListStatus env c' = fst (snmpProcessGetRequestPdu env c))"
proof (cases "snmpInitResponse env (getCounted c)")
  case (Pair e0 r)
  show ?thesis
  proof (cases "e0 = NO_ERROR")
    case False
    have m: "\<not> (mode (user (getCounted c)) \<noteq> SNMP_ACCESS_READ_ONLY
              \<and> mode (user (getCounted c)) \<noteq> SNMP_ACCESS_READ_WRITE)"
      using mode by auto
    have "fst (snmpProcessGetRequestPdu env c) = e0"
      unfolding snmpProcessGetRequestPdu_def getCounted_def [symmetric] Let_def
      using False by (simp only: m if_False Pair prod.case simp_thms if_True fst_conv)
    with Pair show ?thesis by (metis fst_conv)
  next
    case True
    obtain e1 k c1 where loop:
      "getLoop env ((getCounted c)\<lparr>response := r\<rparr>) 1 (varBindList (request c)) = (e1, k, c1)"
      by (metis prod_cases3)
    note run = get_handler_run [OF mode Pair [unfolded True] loop]
    obtain e2 r2 where tr: "snmpTranslateStatusCode env (response c1) e1 k = (e2, r2)"
      by (cases "snmpTranslateStatusCode env (response c1) e1 k")
    show ?thesis
    proof (cases "e2 = NO_ERROR")
      case False
      with run tr err have "fst (snmpProcessGetRequestPdu env c) = e2"
        by (auto split: if_splits)
      with tr show ?thesis by (metis fst_conv)
    next
      case True
      with run tr err
      have "fst (snmpProcessGetRequestPdu env c) =
              copyVarBindingListStatus env (c1\<lparr>response := r2\<rparr>)"
        by (auto simp: snmpCopyVarBindingList_def Let_def split: if_splits prod.splits)
      then show ?thesis by metis
    qed
  qed
qed

section \<open>SetRequest-PDU: object identifiers are not validated\<close>

lemma set_helpers_ignore_oidCheck:
  "snmpSetObjectValue (env\<lparr>oidCheck := f\<rparr>) = snmpSetObjectValue env"
  "snmpCopyVarBindingList (env\<lparr>oidCheck := f\<rparr>) = snmpCopyVarBindingList env"
  by (auto simp: fun_eq_iff snmpSetObjectValue_def snmpCopyVarBindingList_def)

lemma setLoop_ignores_oidCheck:
  "setLoop (env\<lparr>oidCheck := f\<rparr>) commit c idx p = setLoop env commit c idx p"
proof (induction env commit c idx p rule: setLoop.induct)
  case (1 env commit c idx p)
  show ?case
  proof (cases p)
    case Nil
    then show ?thesis by (simp add: setLoop_Nil)
  next
    case (Cons x rest)
    show ?thesis
    proof (cases x)
      case (Malformed e)
      with Cons show ?thesis by (simp add: setLoop_Malformed)
    next
      case (Encoded var)
      obtain e c' where s: "snmpSetObjectValue env c var commit = (e, c')"
        by (cases "snmpSetObjectValue env c var commit")
      have s': "snmpSetObjectValue (env\<lparr>oidCheck := f\<rparr>) c var commit = (e, c')"
        using s by (simp add: set_helpers_ignore_oidCheck)
      show ?thesis
      proof (cases "e = NO_ERROR")
        case True
        have "setLoop (env\<lparr>oidCheck := f\<rparr>) commit
                (if commit then incInTotalSetVars c' else c') (idx + 1) rest =
              setLoop env commit (if commit then incInTotalSetVars c' else c') (idx + 1) rest"
          using "1.IH" [of "(var, 1)" var 1 e c'] Cons Encoded s True
          by simp
        with True show ?thesis
          using Cons Encoded s s' by (simp add: setLoop_Encoded)
      next
        case False
        then show ?thesis
          using Cons Encoded s s' by (simp add: setLoop_Encoded)
      qed
    qed
  qed
qed

lemma set_handler_ignores_oidCheck:
  "snmpProcessSetRequestPdu (env\<lparr>oidCheck := f\<rparr>) c = snmpProcessSetRequestPdu env c"
proof -
  have l: "setLoop (env\<lparr>oidCheck := f\<rparr>) = setLoop env"
    by (simp add: fun_eq_iff setLoop_ignores_oidCheck)
  have h: "snmpInitResponse (env\<lparr>oidCheck := f\<rparr>) = snmpInitResponse env"
    "snmpTranslateStatusCode (env\<lparr>oidCheck := f\<rparr>) = snmpTranslateStatusCode env"
    by simp_all
  show ?thesis
    unfolding snmpProcessSetRequestPdu_def l h set_helpers_ignore_oidCheck ..
qed

text \<open>
  Claim C4 fails on the code: \<open>snmpProcessSetRequestPdu\<close> never calls \<open>oidCheck\<close>, which
  the loops of \<open>snmpProcessGetRequestPdu\<close> and \<open>snmpProcessGetBulkRequestPdu\<close> call
  for every binding. In the run below the object identifier of the binding is rejected
  by \<open>oidCheck\<close>; the GetRequest is aborted with error-index 1, and the SetRequest goes
  to the store, which commits the binding.
\<close>

theorem set_request_skips_oidCheck:
  "oidCheck (exEnv 10) (oid (exVar [] [9])) \<noteq> NO_ERROR
   \<and> errorStatus (response (snd (snmpProcessGetRequestPdu (exEnv 10) exGetBadOidCtx))) = 5
   \<and> errorIndex (response (snd (snmpProcessGetRequestPdu (exEnv 10) exGetBadOidCtx))) = 1
   \<and> fst (snmpProcessSetRequestPdu (exEnv 10) exSetBadOidCtx) = NO_ERROR
   \<and> errorStatus (response (snd (snmpProcessSetRequestPdu (exEnv 10) exSetBadOidCtx))) = 0
   \<and> mib (snd (snmpProcessSetRequestPdu (exEnv 10) exSetBadOidCtx)) =
       [([], [9]), ([1], [10]), ([2], [20]), ([3], [30])]"
  by (simp add: exGetBadOidCtx_def exSetBadOidCtx_def ex_simps get_eval set_eval
        SNMP_ERROR_TOO_BIG_def)

section \<open>GetBulkRequest-PDU: the shape of one iteration\<close>

lemma bulkCatch_frame:
  assumes "bulkCatch c e var = Inr (var2, c2)"
  shows "request c2 = request c" "response c2 = response c" "mib c2 = mib c" "user c2 = user c"
  using assms by (auto simp: bulkCatch_def incInTotalReqVars_def split: if_splits)

lemma bulkVarBind_written:
  assumes "bulkVarBind env s = Inr s'"
  obtains var rest e1 var1 eom var2 c2 where
    "bs_p s = Encoded var # rest"
    "\<not> (bulkFirst s \<and> maxRepetitions (request (bs_ctx s)) = 0)"
    "oidCheck env (oid var) = NO_ERROR"
    "bulkFetch env (bs_ctx s) (bulkFirst s \<or> bs_endOfMibView s) var = Inr (e1, var1, eom)"
    "bulkCatch (bs_ctx s) e1 var1 = Inr (var2, c2)"
    "writeVarBindingStatus env (response (bs_ctx s)) var2 = NO_ERROR"
    "s' = s\<lparr>bs_ctx := c2\<lparr>response := (response (bs_ctx s))\<lparr>varBindList :=
                            varBindList (response (bs_ctx s)) @ [Encoded var2]\<rparr>\<rparr>,
              bs_error := NO_ERROR, bs_endOfMibView := eom, bs_p := rest,
              bs_m := bulkMark s\<rparr>"
proof -
  have nz: "\<not> (bulkFirst s \<and> maxRepetitions (request (bs_ctx s)) = 0)"
  proof
    assume "bulkFirst s \<and> maxRepetitions (request (bs_ctx s)) = 0"
    then have "\<exists>t. bulkVarBind env s = Inl t"
      by (simp add: bulkVarBind_def bulkFirst_def Let_def)
    with assms show False by auto
  qed
  define fl where "fl = (bulkFirst s \<or> bs_endOfMibView s)"
  have step: "bulkVarBind env s =
      (case snmpParseVarBinding (bs_p s) of
         Inl e \<Rightarrow> Inl (s\<lparr>bs_error := e, bs_m := bulkMark s, bs_endOfMibView := fl\<rparr>)
       | Inr (var, n) \<Rightarrow>
           if oidCheck env (oid var) \<noteq> NO_ERROR
           then Inl (s\<lparr>bs_error := oidCheck env (oid var), bs_m := bulkMark s,
                       bs_endOfMibView := fl\<rparr>)
           else case bulkFetch env (bs_ctx s) fl var of
               Inl e1 \<Rightarrow> Inl (s\<lparr>bs_error := e1, bs_m := bulkMark s, bs_endOfMibView := fl\<rparr>)
             | Inr (e1, var1, eom) \<Rightarrow>
                 (case bulkCatch (bs_ctx s) e1 var1 of
                    Inl e2 \<Rightarrow> Inl (s\<lparr>bs_error := e2, bs_m := bulkMark s,
                                       bs_endOfMibView := eom\<rparr>)
                  | Inr (var2, c2) \<Rightarrow>
                      (case snmpWriteVarBinding env c2 var2 of
                         (e3, c3) \<Rightarrow>
                           if e3 \<noteq> NO_ERROR
                           then Inl (s\<lparr>bs_ctx := c3, bs_error := e3, bs_m := bulkMark s,
                                       bs_endOfMibView := eom\<rparr>)
                           else Inr (s\<lparr>bs_ctx := c3, bs_error := NO_ERROR, bs_m := bulkMark s,
                                       bs_endOfMibView := eom,
                                       bs_p := drop n (bs_p s)\<rparr>))))"
    using nz
    by (cases "bulkFirst s")
       (simp_all add: bulkVarBind_def bulkFirst_def bulkMark_def fl_def Let_def
          split: sum.split prod.split)
  obtain var rest where p: "bs_p s = Encoded var # rest"
    using assms step
    by (cases "bs_p s" rule: snmpParseVarBinding.cases) auto
  have oc: "oidCheck env (oid var) = NO_ERROR"
    using assms step p by (auto split: if_splits)
  obtain e1 var1 eom where f: "bulkFetch env (bs_ctx s) fl var = Inr (e1, var1, eom)"
    using assms step p oc
    by (cases "bulkFetch env (bs_ctx s) fl var") auto
  obtain var2 c2 where k: "bulkCatch (bs_ctx s) e1 var1 = Inr (var2, c2)"
    using assms step p oc f
    by (cases "bulkCatch (bs_ctx s) e1 var1") auto
  have w: "writeVarBindingStatus env (response c2) var2 = NO_ERROR"
    using assms step p oc f k
    by (auto simp: snmpWriteVarBinding_def Let_def split: if_splits)
  have s': "s' = s\<lparr>bs_ctx := c2\<lparr>response := (response c2)\<lparr>varBindList :=
                            varBindList (response c2) @ [Encoded var2]\<rparr>\<rparr>,
              bs_error := NO_ERROR, bs_endOfMibView := eom, bs_p := rest,
              bs_m := bulkMark s\<rparr>"
    using assms step p oc f k w
    by (cases s) (auto simp: snmpWriteVarBinding_def Let_def)
  show thesis
    using that [OF p nz oc f [unfolded fl_def] k] w s' bulkCatch_frame(2) [OF k]
    by simp
qed

lemma bulkVarBind_Inr_fields:
  assumes "bulkVarBind env s = Inr s2"
  shows "bs_index s2 = bs_index s" and "bs_p s \<noteq> []" and "bs_p s2 = tl (bs_p s)"
    and "request (bs_ctx s2) = request (bs_ctx s)"
    and "mib (bs_ctx s2) = mib (bs_ctx s)" and "user (bs_ctx s2) = user (bs_ctx s)"
    and "length (varBindList (response (bs_ctx s2))) =
           Suc (length (varBindList (response (bs_ctx s))))"
    and "bs_m s2 = bulkMark s" and "bs_error s2 = NO_ERROR"
    and "\<not> (bulkFirst s \<and> maxRepetitions (request (bs_ctx s)) = 0)"
proof -
  obtain var rest e1 var1 eom var2 c2 where
    p: "bs_p s = Encoded var # rest"
    and nz: "\<not> (bulkFirst s \<and> maxRepetitions (request (bs_ctx s)) = 0)"
    and oc: "oidCheck env (oid var) = NO_ERROR"
    and f: "bulkFetch env (bs_ctx s) (bulkFirst s \<or> bs_endOfMibView s) var = Inr (e1, var1, eom)"
    and k: "bulkCatch (bs_ctx s) e1 var1 = Inr (var2, c2)"
    and w: "writeVarBindingStatus env (response (bs_ctx s)) var2 = NO_ERROR"
    and s2: "s2 = s\<lparr>bs_ctx := c2\<lparr>response := (response (bs_ctx s))\<lparr>varBindList :=
                            varBindList (response (bs_ctx s)) @ [Encoded var2]\<rparr>\<rparr>,
              bs_error := NO_ERROR, bs_endOfMibView := eom, bs_p := rest,
              bs_m := bulkMark s\<rparr>"
    by (rule bulkVarBind_written [OF assms])
  note fr = bulkCatch_frame [OF k]
  show "bs_index s2 = bs_index s" by (simp add: s2)
  show "bs_p s \<noteq> []" by (simp add: p)
  show "bs_p s2 = tl (bs_p s)" by (simp add: s2 p)
  show "request (bs_ctx s2) = request (bs_ctx s)" by (simp add: s2 fr)
  show "mib (bs_ctx s2) = mib (bs_ctx s)" by (simp add: s2 fr)
  show "user (bs_ctx s2) = user (bs_ctx s)" by (simp add: s2 fr)
  show "length (varBindList (response (bs_ctx s2))) =
           Suc (length (varBindList (response (bs_ctx s))))" by (simp add: s2)
  show "bs_m s2 = bulkMark s" by (simp add: s2)
  show "bs_error s2 = NO_ERROR" by (simp add: s2)
  show "\<not> (bulkFirst s \<and> maxRepetitions (request (bs_ctx s)) = 0)" by (rule nz)
qed

lemma bulkInv_init:
  "bulkInv (request c) (length (varBindList (request c))) (length (varBindList (response c)))
     (bulkInit c)"
  by (simp add: bulkInv_def bulkInit_def Let_def)

lemma bulkVarBind_Inl:
  assumes "bulkVarBind env s = Inl s'"
  shows "bs_index s' = bs_index s \<and> bs_p s' = bs_p s
         \<and> request (bs_ctx s') = request (bs_ctx s)
         \<and> response (bs_ctx s') = response (bs_ctx s)
         \<and> mib (bs_ctx s') = mib (bs_ctx s) \<and> user (bs_ctx s') = user (bs_ctx s)"
  using assms
  by (cases "bs_p s" rule: snmpParseVarBinding.cases)
     (auto simp: bulkVarBind_def bulkFetch_def bulkCatch_def snmpWriteVarBinding_def
        incInTotalReqVars_def Let_def split: if_splits sum.splits prod.splits)

lemma bulkNext_Inl:
  assumes "bulkNext s = Inl s'"
  shows "s' = s\<lparr>bs_ctx := (bs_ctx s)\<lparr>request := (request (bs_ctx s))
                  \<lparr>maxRepetitions := maxRepetitions (request (bs_ctx s)) - 1\<rparr>\<rparr>\<rparr>
         \<and> bs_p s = [] \<and> bs_index s > int (nonRepeaters (request (bs_ctx s)))
         \<and> (maxRepetitions (request (bs_ctx s)) - 1 = 0 \<or> bs_endOfMibView s)"
  using assms
  by (auto simp: bulkNext_def Let_def split: if_splits)

lemma bulkNext_Inr:
  assumes "bulkNext s = Inr s'"
  shows "(s' = s\<lparr>bs_index := bs_index s + 1\<rparr>
          \<and> \<not> (bs_p s = [] \<and> bs_index s > int (nonRepeaters (request (bs_ctx s)))))
         \<or> (s' = s\<lparr>bs_ctx := (bs_ctx s)\<lparr>request := (request (bs_ctx s))
                      \<lparr>maxRepetitions := maxRepetitions (request (bs_ctx s)) - 1\<rparr>\<rparr>,
                    bs_p := drop (bs_m s) (varBindList (response (bs_ctx s))),
                    bs_index := int (nonRepeaters (request (bs_ctx s))) + 1\<rparr>
            \<and> bs_p s = [] \<and> bs_index s > int (nonRepeaters (request (bs_ctx s)))
            \<and> maxRepetitions (request (bs_ctx s)) - 1 \<noteq> 0
            \<and> \<not> bs_endOfMibView s)"
  using assms
  by (auto simp: bulkNext_def Let_def split: if_splits)

lemma bulkInvD:
  assumes "bulkInv req0 N L0 s"
  shows "request (bs_ctx s) = req0\<lparr>maxRepetitions := maxRepetitions (request (bs_ctx s))\<rparr>"
    and "maxRepetitions (request (bs_ctx s)) \<le> maxRepetitions req0"
    and "1 \<le> bs_index s"
    and "int (length (bs_p s)) + bs_index s = int N + 1"
    and "length (varBindList (response (bs_ctx s))) =
           L0 + nat (bs_index s - 1) + (N - nonRepeaters req0)
             * (maxRepetitions req0 - maxRepetitions (request (bs_ctx s)))"
    and "maxRepetitions (request (bs_ctx s)) < maxRepetitions req0 \<longrightarrow>
           nonRepeaters req0 < N \<and> 1 \<le> maxRepetitions (request (bs_ctx s))
           \<and> int (nonRepeaters req0) + 1 \<le> bs_index s"
    and "int (nonRepeaters req0) + 1 < bs_index s \<longrightarrow>
           1 \<le> maxRepetitions (request (bs_ctx s))
           \<and> bs_m s = L0 + nonRepeaters req0 + (N - nonRepeaters req0)
               * (maxRepetitions req0 - maxRepetitions (request (bs_ctx s)))"
    and "bs_p s = [] \<longrightarrow> N \<le> nonRepeaters req0"
  using assms unfolding bulkInv_def Let_def by blast+

text \<open>The arithmetic of a round: what the invariant gives after a binding is appended.\<close>

lemma bulkInv_written:
  assumes inv: "bulkInv req0 N L0 s"
    and wr: "bulkVarBind env s = Inr s2"
  shows "request (bs_ctx s2) = req0\<lparr>maxRepetitions := maxRepetitions (request (bs_ctx s))\<rparr>"
    and "maxRepetitions (request (bs_ctx s)) \<le> maxRepetitions req0"
    and "nonRepeaters (request (bs_ctx s)) = nonRepeaters req0"
    and "1 \<le> bs_index s" and "bs_index s \<le> int N"
    and "int (length (bs_p s2)) + bs_index s = int N"
    and "length (varBindList (response (bs_ctx s2))) =
           L0 + nat (bs_index s) + (N - nonRepeaters req0)
             * (maxRepetitions req0 - maxRepetitions (request (bs_ctx s)))"
    and "maxRepetitions (request (bs_ctx s)) < maxRepetitions req0 \<longrightarrow>
           nonRepeaters req0 < N \<and> int (nonRepeaters req0) + 1 \<le> bs_index s"
    and "int (nonRepeaters req0) + 1 \<le> bs_index s \<longrightarrow>
           1 \<le> maxRepetitions (request (bs_ctx s))
           \<and> bs_m s2 = L0 + nonRepeaters req0 + (N - nonRepeaters req0)
               * (maxRepetitions req0 - maxRepetitions (request (bs_ctx s)))"
proof -
  note f = bulkVarBind_Inr_fields [OF wr]
  let ?c = "bs_ctx s"
  from inv have rq: "request ?c = req0\<lparr>maxRepetitions := maxRepetitions (request ?c)\<rparr>"
    and le: "maxRepetitions (request ?c) \<le> maxRepetitions req0"
    and i1: "1 \<le> bs_index s"
    and pl: "int (length (bs_p s)) + bs_index s = int N + 1"
    and ln: "length (varBindList (response ?c)) =
               L0 + nat (bs_index s - 1) + (N - nonRepeaters req0)
                 * (maxRepetitions req0 - maxRepetitions (request ?c))"
    and lt: "maxRepetitions (request ?c) < maxRepetitions req0 \<longrightarrow>
               nonRepeaters req0 < N \<and> 1 \<le> maxRepetitions (request ?c)
               \<and> int (nonRepeaters req0) + 1 \<le> bs_index s"
    and mid: "int (nonRepeaters req0) + 1 < bs_index s \<longrightarrow>
               1 \<le> maxRepetitions (request ?c)
               \<and> bs_m s = L0 + nonRepeaters req0 + (N - nonRepeaters req0)
                   * (maxRepetitions req0 - maxRepetitions (request ?c))"
    by (simp_all add: bulkInv_def Let_def)
  have nr: "nonRepeaters (request ?c) = nonRepeaters req0"
    by (subst rq) simp
  show "request (bs_ctx s2) = req0\<lparr>maxRepetitions := maxRepetitions (request ?c)\<rparr>"
    using f(4) rq by simp
  show "maxRepetitions (request ?c) \<le> maxRepetitions req0" by (rule le)
  show "nonRepeaters (request ?c) = nonRepeaters req0" by (rule nr)
  show "1 \<le> bs_index s" by (rule i1)
  have "length (bs_p s) = Suc (length (bs_p s2))"
    using f(2) f(3) by (cases "bs_p s") simp_all
  with pl show "int (length (bs_p s2)) + bs_index s = int N" by simp
  then show "bs_index s \<le> int N" by linarith
  have "nat (bs_index s) = Suc (nat (bs_index s - 1))"
    using i1 by linarith
  with ln f(7)
  show "length (varBindList (response (bs_ctx s2))) =
           L0 + nat (bs_index s) + (N - nonRepeaters req0)
             * (maxRepetitions req0 - maxRepetitions (request ?c))"
    by simp
  show "maxRepetitions (request ?c) < maxRepetitions req0 \<longrightarrow>
           nonRepeaters req0 < N \<and> int (nonRepeaters req0) + 1 \<le> bs_index s"
    using lt by simp
  show "int (nonRepeaters req0) + 1 \<le> bs_index s \<longrightarrow>
           1 \<le> maxRepetitions (request ?c)
           \<and> bs_m s2 = L0 + nonRepeaters req0 + (N - nonRepeaters req0)
               * (maxRepetitions req0 - maxRepetitions (request ?c))"
  proof
    assume a: "int (nonRepeaters req0) + 1 \<le> bs_index s"
    show "1 \<le> maxRepetitions (request ?c)
           \<and> bs_m s2 = L0 + nonRepeaters req0 + (N - nonRepeaters req0)
               * (maxRepetitions req0 - maxRepetitions (request ?c))"
    proof (cases "bulkFirst s")
      case True
      then have i: "bs_index s = int (nonRepeaters req0) + 1"
        by (simp add: bulkFirst_def nr)
      have "maxRepetitions (request ?c) \<noteq> 0"
        using f(10) True by simp
      moreover have "bs_m s2 = length (varBindList (response ?c))"
        using f(8) True by (simp add: bulkMark_def)
      ultimately show ?thesis
        using ln i by simp
    next
      case False
      then have "int (nonRepeaters req0) + 1 < bs_index s"
        using a by (simp add: bulkFirst_def nr)
      moreover have "bs_m s2 = bs_m s"
        using f(8) False by (simp add: bulkMark_def)
      ultimately show ?thesis
        using mid by simp
    qed
  qed
qed

lemma bulkStep_Inr_cases:
  assumes "bulkStep env s = Inr s'"
  obtains s2 where "bulkVarBind env s = Inr s2" and "bulkNext s2 = Inr s'"
  using assms by (cases "bulkVarBind env s") (simp_all add: bulkStep_def)

lemma bulkStep_Inl_cases:
  assumes "bulkStep env s = Inl s'"
  obtains (broke) "bulkVarBind env s = Inl s'"
    | (ended) s2 where "bulkVarBind env s = Inr s2" and "bulkNext s2 = Inl s'"
  using assms by (cases "bulkVarBind env s") (simp_all add: bulkStep_def)

lemma bulkInv_step:
  assumes inv: "bulkInv req0 N L0 s"
    and step: "bulkStep env s = Inr s'"
  shows "bulkInv req0 N L0 s'"
proof -
  obtain s2 where wr: "bulkVarBind env s = Inr s2" and nx: "bulkNext s2 = Inr s'"
    by (rule bulkStep_Inr_cases [OF step])
  note w = bulkInv_written [OF inv wr]
  let ?M = "maxRepetitions (request (bs_ctx s))"
  let ?R = "nonRepeaters req0"
  let ?d = "maxRepetitions req0 - ?M"
  have r2: "nonRepeaters (request (bs_ctx s2)) = ?R"
    by (simp add: w(1))
  have i2: "bs_index s2 = bs_index s"
    by (rule bulkVarBind_Inr_fields(1) [OF wr])
  from bulkNext_Inr [OF nx]
  show ?thesis
  proof (elim disjE conjE)
    assume s': "s' = s2\<lparr>bs_index := bs_index s2 + 1\<rparr>"
      and more: "\<not> (bs_p s2 = [] \<and> int (nonRepeaters (request (bs_ctx s2))) < bs_index s2)"
    have last: "bs_p s2 = [] \<longrightarrow> N \<le> ?R"
    proof
      assume e: "bs_p s2 = []"
      with more r2 i2 have "bs_index s \<le> int ?R" by simp
      moreover from e w(6) have "bs_index s = int N" by simp
      ultimately show "N \<le> ?R" by simp
    qed
    have idx: "nat (bs_index s + 1 - 1) = nat (bs_index s)" by simp
    show ?thesis
      unfolding bulkInv_def Let_def
      using w last by (auto simp: s' i2 idx)
  next
    assume s': "s' = s2\<lparr>bs_ctx := (bs_ctx s2)\<lparr>request := (request (bs_ctx s2))
                      \<lparr>maxRepetitions := maxRepetitions (request (bs_ctx s2)) - 1\<rparr>\<rparr>,
                    bs_p := drop (bs_m s2) (varBindList (response (bs_ctx s2))),
                    bs_index := int (nonRepeaters (request (bs_ctx s2))) + 1\<rparr>"
      and e: "bs_p s2 = []"
      and gt: "int (nonRepeaters (request (bs_ctx s2))) < bs_index s2"
      and nz: "maxRepetitions (request (bs_ctx s2)) - 1 \<noteq> 0"
    have iN: "bs_index s = int N" using e w(6) by simp
    have RN: "?R < N" using gt r2 i2 iN by simp
    have ge: "int ?R + 1 \<le> bs_index s" using gt r2 i2 by simp
    have M2: "maxRepetitions (request (bs_ctx s2)) = ?M" by (simp add: w(1))
    have M: "2 \<le> ?M" using nz M2 by simp
    have m2: "bs_m s2 = L0 + ?R + (N - ?R) * ?d" using w(9) ge by simp
    have len2: "length (varBindList (response (bs_ctx s2))) = L0 + N + (N - ?R) * ?d"
      using w(7) iN by simp
    have d': "maxRepetitions req0 - (?M - 1) = Suc ?d"
      using M w(2) by simp
    have plen: "length (drop (bs_m s2) (varBindList (response (bs_ctx s2)))) = N - ?R"
      using m2 len2 RN by simp
    have pne: "drop (bs_m s2) (varBindList (response (bs_ctx s2))) \<noteq> []"
      using plen RN by (metis length_0_conv zero_less_diff less_numeral_extra(3))
    have rq: "request (bs_ctx s') = req0\<lparr>maxRepetitions := ?M - 1\<rparr>"
      by (simp add: s' w(1))
    have fields: "bs_index s' = int ?R + 1"
      "bs_p s' = drop (bs_m s2) (varBindList (response (bs_ctx s2)))"
      "response (bs_ctx s') = response (bs_ctx s2)"
      by (simp_all add: s' r2)
    have total: "L0 + N + (N - ?R) * ?d = L0 + ?R + (N - ?R) * Suc ?d"
      using RN by simp
    have M': "maxRepetitions (request (bs_ctx s')) = ?M - 1"
      by (simp add: rq)
    have c1: "request (bs_ctx s') = req0\<lparr>maxRepetitions := maxRepetitions (request (bs_ctx s'))\<rparr>"
      by (simp add: rq)
    have c2: "maxRepetitions (request (bs_ctx s')) \<le> maxRepetitions req0"
      using w(2) by (simp add: M')
    have c3: "1 \<le> bs_index s'"
      by (simp add: fields)
    have c4: "int (length (bs_p s')) + bs_index s' = int N + 1"
      unfolding fields(1,2) plen using RN by simp
    have c5: "length (varBindList (response (bs_ctx s'))) =
                L0 + nat (bs_index s' - 1)
                + (N - ?R) * (maxRepetitions req0 - maxRepetitions (request (bs_ctx s')))"
      unfolding M' d' fields(3) len2 total by (simp add: fields)
    have c6: "maxRepetitions (request (bs_ctx s')) < maxRepetitions req0 \<longrightarrow>
                ?R < N \<and> 1 \<le> maxRepetitions (request (bs_ctx s')) \<and> int ?R + 1 \<le> bs_index s'"
      using RN M by (auto simp: M' fields)
    have c7: "int ?R + 1 < bs_index s' \<longrightarrow>
                1 \<le> maxRepetitions (request (bs_ctx s'))
                \<and> bs_m s' = L0 + ?R
                    + (N - ?R) * (maxRepetitions req0 - maxRepetitions (request (bs_ctx s')))"
      by (simp add: fields)
    have c8: "bs_p s' = [] \<longrightarrow> N \<le> ?R"
      using pne by (simp add: fields)
    show ?thesis
      unfolding bulkInv_def Let_def
      by (intro conjI) (fact c1 c2 c3 c4 c5 c6 c7 c8)+
  qed
qed

lemma bulkInv_exit:
  assumes inv: "bulkInv req0 N L0 s" and e: "bs_p s = []"
  shows "bulkFinal req0 N L0 s"
proof -
  note d = bulkInvD [OF inv]
  have NR: "N \<le> nonRepeaters req0" using d(8) e by simp
  have i: "bs_index s = int N + 1" using d(4) e by simp
  have M: "maxRepetitions (request (bs_ctx s)) = maxRepetitions req0"
    using d(2) d(6) NR by auto
  have c1: "request (bs_ctx s) = req0\<lparr>maxRepetitions := maxRepetitions (request (bs_ctx s))\<rparr>"
    by (rule d(1))
  have c2: "maxRepetitions (request (bs_ctx s)) \<le> maxRepetitions req0"
    by (rule d(2))
  have c3: "maxRepetitions req0 - maxRepetitions (request (bs_ctx s)) =
              (if nonRepeaters req0 < N
               then (length (varBindList (response (bs_ctx s))) - L0 - nonRepeaters req0)
                      div (N - nonRepeaters req0)
               else 0)"
    using NR by (simp add: M)
  have c4: "length (varBindList (response (bs_ctx s))) \<le>
              L0 + min N (nonRepeaters req0) + (N - nonRepeaters req0) * maxRepetitions req0"
    using d(5) NR by (simp add: i M)
  show ?thesis
    unfolding bulkFinal_def Let_def
    by (intro conjI) (fact c1 c2 c3 c4)+
qed

lemma div_rounds:
  fixes k r d :: nat
  assumes "k < r"
  shows "(k + r * d) div r = d"
  using assms by simp

lemma bulkInv_break:
  assumes inv: "bulkInv req0 N L0 s"
    and ne: "bs_p s \<noteq> []"
    and step: "bulkStep env s = Inl s'"
  shows "bulkFinal req0 N L0 s'"
proof -
  let ?M = "maxRepetitions (request (bs_ctx s))"
  let ?Mi = "maxRepetitions req0"
  let ?R = "nonRepeaters req0"
  let ?d = "?Mi - ?M"
  let ?len = "length (varBindList (response (bs_ctx s')))"
  from step show ?thesis
  proof (cases rule: bulkStep_Inl_cases)
    case broke
    note f = bulkVarBind_Inl [OF broke]
    note rq = bulkInvD(1) [OF inv] and le = bulkInvD(2) [OF inv] and i1 = bulkInvD(3) [OF inv]
      and pl = bulkInvD(4) [OF inv] and ln = bulkInvD(5) [OF inv] and lt = bulkInvD(6) [OF inv]
      and mid = bulkInvD(7) [OF inv]
    define k where "k = nat (bs_index s - 1)"
    have kN: "k < N"
      using ne pl i1 by (cases "bs_p s") (simp_all add: k_def)
    have same: "response (bs_ctx s') = response (bs_ctx s)"
      and same_request: "request (bs_ctx s') = request (bs_ctx s)"
      using f by simp_all
    have len: "?len = L0 + k + (N - ?R) * ?d"
      unfolding same k_def by (rule ln)
    have M': "maxRepetitions (request (bs_ctx s')) = ?M"
      by (simp only: same_request)
    have c1: "request (bs_ctx s') = req0\<lparr>maxRepetitions := maxRepetitions (request (bs_ctx s'))\<rparr>"
      unfolding same_request by (rule rq)
    have c2: "maxRepetitions (request (bs_ctx s')) \<le> ?Mi"
      using le by (simp add: M')
    have c3: "?Mi - maxRepetitions (request (bs_ctx s')) =
                (if ?R < N then (?len - L0 - ?R) div (N - ?R) else 0)"
    proof (cases "?R < N")
      case False
      with lt le show ?thesis by (auto simp: M')
    next
      case True
      show ?thesis
      proof (cases "?R \<le> k")
        case True
        have "?len - L0 - ?R = (k - ?R) + (N - ?R) * ?d"
          using len True by simp
        moreover have "k - ?R < N - ?R"
          using kN True by simp
        ultimately have "(?len - L0 - ?R) div (N - ?R) = ?d"
          by (simp only: div_rounds)
        with \<open>?R < N\<close> show ?thesis by (simp add: M')
      next
        case False
        then have "bs_index s < int ?R + 1"
          by (simp add: k_def)
        with lt le have d0: "?M = ?Mi" by auto
        have "?len - L0 - ?R = 0"
          using len False d0 by simp
        with \<open>?R < N\<close> d0 show ?thesis by (simp add: M')
      qed
    qed
    define P where "P = (N - ?R) * ?d"
    define Q where "Q = (N - ?R) * ?Mi"
    have lenP: "?len = L0 + k + P"
      unfolding P_def by (rule len)
    have "?len \<le> L0 + min N ?R + Q"
    proof (cases "k \<le> ?R")
      case True
      have "P \<le> Q"
        unfolding P_def Q_def by (rule mult_le_mono2) simp
      with lenP True kN show ?thesis by (simp add: min_def)
    next
      case False
      then have "int ?R + 1 < bs_index s"
        by (simp add: k_def)
      with mid have "1 \<le> ?M" by simp
      with le have "Suc ?d \<le> ?Mi" by simp
      then have "(N - ?R) * Suc ?d \<le> Q"
        unfolding Q_def by (rule mult_le_mono2)
      then have "P + (N - ?R) \<le> Q"
        unfolding P_def by simp
      moreover have "k < ?R + (N - ?R)" and "?R < N"
        using kN False by simp_all
      ultimately show ?thesis
        using lenP by (simp add: min_def)
    qed
    then have c4: "?len \<le> L0 + min N ?R + (N - ?R) * ?Mi"
      by (simp only: Q_def)
    show ?thesis
      unfolding bulkFinal_def Let_def
      by (intro conjI) (fact c1 c2 c3 c4)+
  next
    case (ended s2)
    note w = bulkInv_written [OF inv ended(1)]
    from bulkNext_Inl [OF ended(2)]
    have s': "s' = s2\<lparr>bs_ctx := (bs_ctx s2)\<lparr>request := (request (bs_ctx s2))
                  \<lparr>maxRepetitions := maxRepetitions (request (bs_ctx s2)) - 1\<rparr>\<rparr>\<rparr>"
      and e: "bs_p s2 = []"
      and gt: "int (nonRepeaters (request (bs_ctx s2))) < bs_index s2"
      by simp_all
    have i2: "bs_index s2 = bs_index s"
      by (rule bulkVarBind_Inr_fields(1) [OF ended(1)])
    have iN: "bs_index s = int N" using e w(6) by simp
    have RN: "?R < N" using gt i2 iN by (simp add: w(1))
    have ge: "int ?R + 1 \<le> bs_index s" using gt i2 by (simp add: w(1))
    have M1: "1 \<le> ?M" using w(9) ge by simp
    have M': "maxRepetitions (request (bs_ctx s')) = ?M - 1"
      by (simp add: s' w(1))
    have d': "?Mi - (?M - 1) = Suc ?d"
      using M1 w(2) by simp
    have len: "?len = L0 + ?R + (N - ?R) * Suc ?d"
      using w(7) iN RN by (simp add: s')
    have c1: "request (bs_ctx s') = req0\<lparr>maxRepetitions := maxRepetitions (request (bs_ctx s'))\<rparr>"
      by (simp add: s' w(1))
    have c2: "maxRepetitions (request (bs_ctx s')) \<le> ?Mi"
      using w(2) by (simp add: M')
    have "(?len - L0 - ?R) div (N - ?R) = Suc ?d"
      using RN by (simp add: len del: mult_Suc_right)
    then have c3: "?Mi - maxRepetitions (request (bs_ctx s')) =
                (if ?R < N then (?len - L0 - ?R) div (N - ?R) else 0)"
      unfolding M' d' using RN by simp
    have "Suc ?d \<le> ?Mi" using M1 w(2) by simp
    then have "(N - ?R) * Suc ?d \<le> (N - ?R) * ?Mi"
      by (rule mult_le_mono2)
    then have c4: "?len \<le> L0 + min N ?R + (N - ?R) * ?Mi"
      using RN unfolding len by simp
    show ?thesis
      unfolding bulkFinal_def Let_def
      by (intro conjI) (fact c1 c2 c3 c4)+
  qed
qed

lemma bulkLoop_final:
  "bulkInv req0 N L0 s \<Longrightarrow> bulkFinal req0 N L0 (bulkLoop env s)"
proof (induction env s rule: bulkLoop.induct)
  case (1 env s)
  show ?case
  proof (cases "bs_p s = []")
    case True
    with "1.prems" show ?thesis
      by (subst bulkLoop.simps) (simp add: bulkInv_exit)
  next
    case False
    show ?thesis
    proof (cases "bulkStep env s")
      case (Inl s')
      with False "1.prems" show ?thesis
        by (subst bulkLoop.simps) (simp add: bulkInv_break)
    next
      case (Inr s')
      with False "1.prems" "1.IH" [OF False Inr] show ?thesis
        by (subst bulkLoop.simps) (simp add: bulkInv_step)
    qed
  qed
qed

section \<open>GetBulkRequest-PDU: what the loop appends\<close>

lemma appendBindings_Nil [simp]: "appendBindings r [] = r"
  by (simp add: appendBindings_def)

lemma appendBindings_append:
  "appendBindings (appendBindings r ws) ws' = appendBindings r (ws @ ws')"
  by (simp add: appendBindings_def)

lemma bindingsFit_append:
  "bindingsFit env r (ws @ ws') =
     (bindingsFit env r ws \<and> bindingsFit env (appendBindings r ws) ws')"
proof (induction ws arbitrary: r)
  case Nil
  show ?case by simp
next
  case (Cons w ws)
  have "appendBindings (r\<lparr>varBindList := varBindList r @ [Encoded w]\<rparr>) ws =
          appendBindings r (w # ws)"
    by (simp add: appendBindings_def)
  with Cons.IH [of "r\<lparr>varBindList := varBindList r @ [Encoded w]\<rparr>"]
  show ?case by simp
qed

lemma bulkVarBind_Inr_response:
  assumes "bulkVarBind env s = Inr s2"
  shows "\<exists>w. response (bs_ctx s2) = appendBindings (response (bs_ctx s)) [w]
           \<and> bindingsFit env (response (bs_ctx s)) [w]"
proof (rule bulkVarBind_written [OF assms])
  fix var rest e1 var1 eom var2 c2
  assume w: "writeVarBindingStatus env (response (bs_ctx s)) var2 = NO_ERROR"
    and s2: "s2 = s\<lparr>bs_ctx := c2\<lparr>response := (response (bs_ctx s))\<lparr>varBindList :=
                            varBindList (response (bs_ctx s)) @ [Encoded var2]\<rparr>\<rparr>,
              bs_error := NO_ERROR, bs_endOfMibView := eom, bs_p := rest,
              bs_m := bulkMark s\<rparr>"
  have "response (bs_ctx s2) = appendBindings (response (bs_ctx s)) [var2]"
    by (simp add: s2 appendBindings_def)
  moreover have "bindingsFit env (response (bs_ctx s)) [var2]"
    using w by simp
  ultimately show ?thesis by (intro exI conjI)
qed

lemma bulkNext_response:
  "bulkNext s = Inl s' \<Longrightarrow> response (bs_ctx s') = response (bs_ctx s)"
  "bulkNext s = Inr s' \<Longrightarrow> response (bs_ctx s') = response (bs_ctx s)"
  by (auto simp: bulkNext_def Let_def split: if_splits)

lemma bulkStep_response:
  assumes "bulkStep env s = Inl s' \<or> bulkStep env s = Inr s'"
  shows "\<exists>ws. response (bs_ctx s') = appendBindings (response (bs_ctx s)) ws
            \<and> bindingsFit env (response (bs_ctx s)) ws"
proof (cases "bulkVarBind env s")
  case (Inl t)
  with assms have "s' = t" by (auto simp: bulkStep_def)
  with bulkVarBind_Inl [OF Inl]
  have "response (bs_ctx s') = appendBindings (response (bs_ctx s)) []" by simp
  moreover have "bindingsFit env (response (bs_ctx s)) []" by simp
  ultimately show ?thesis by (intro exI conjI)
next
  case (Inr s2)
  with assms have "bulkNext s2 = Inl s' \<or> bulkNext s2 = Inr s'"
    by (simp add: bulkStep_def)
  then have same: "response (bs_ctx s') = response (bs_ctx s2)"
    using bulkNext_response by auto
  from bulkVarBind_Inr_response [OF Inr]
  obtain w where "response (bs_ctx s2) = appendBindings (response (bs_ctx s)) [w]"
    and "bindingsFit env (response (bs_ctx s)) [w]"
    by auto
  then show ?thesis
    unfolding same by (intro exI conjI)
qed

lemma bulkLoop_response:
  "\<exists>ws. response (bs_ctx (bulkLoop env s)) = appendBindings (response (bs_ctx s)) ws
         \<and> bindingsFit env (response (bs_ctx s)) ws"
proof (induction env s rule: bulkLoop.induct)
  case (1 env s)
  show ?case
  proof (cases "bs_p s = []")
    case True
    then have "bulkLoop env s = s"
      by (subst bulkLoop.simps) simp
    moreover have "response (bs_ctx s) = appendBindings (response (bs_ctx s)) []"
      and "bindingsFit env (response (bs_ctx s)) []"
      by simp_all
    ultimately show ?thesis by (intro exI [of _ "[]"]) simp
  next
    case False
    show ?thesis
    proof (cases "bulkStep env s")
      case (Inl s')
      then have "bulkLoop env s = s'"
        using False by (subst bulkLoop.simps) simp
      with bulkStep_response [of env s s'] Inl show ?thesis by simp
    next
      case (Inr s')
      then have l: "bulkLoop env s = bulkLoop env s'"
        using False by (subst bulkLoop.simps) simp
      from bulkStep_response [of env s s'] Inr
      obtain ws where a: "response (bs_ctx s') = appendBindings (response (bs_ctx s)) ws"
        and b: "bindingsFit env (response (bs_ctx s)) ws"
        by auto
      from "1.IH" [OF False Inr]
      obtain ws' where c: "response (bs_ctx (bulkLoop env s')) =
                             appendBindings (response (bs_ctx s')) ws'"
        and d: "bindingsFit env (response (bs_ctx s')) ws'"
        by auto
      have "response (bs_ctx (bulkLoop env s)) =
              appendBindings (response (bs_ctx s)) (ws @ ws')"
        by (simp add: l c a appendBindings_append)
      moreover have "bindingsFit env (response (bs_ctx s)) (ws @ ws')"
        using b d by (simp add: bindingsFit_append a)
      ultimately show ?thesis by (intro exI conjI)
    qed
  qed
qed

lemma bulkLoop_frame:
  "mib (bs_ctx (bulkLoop env s)) = mib (bs_ctx s) \<and> user (bs_ctx (bulkLoop env s)) = user (bs_ctx s)"
proof (induction env s rule: bulkLoop.induct)
  case (1 env s)
  show ?case
  proof (cases "bs_p s = []")
    case True
    then show ?thesis by (subst (1 2) bulkLoop.simps) simp
  next
    case False
    show ?thesis
    proof (cases "bulkStep env s")
      case (Inl s')
      then have l: "bulkLoop env s = s'"
        using False by (subst bulkLoop.simps) simp
      from Inl show ?thesis
      proof (cases rule: bulkStep_Inl_cases)
        case broke
        with bulkVarBind_Inl [OF broke] show ?thesis by (simp add: l)
      next
        case (ended s2)
        with bulkVarBind_Inr_fields(5,6) [OF ended(1)] bulkNext_Inl [OF ended(2)]
        show ?thesis by (auto simp: l)
      qed
    next
      case (Inr s')
      then have l: "bulkLoop env s = bulkLoop env s'"
        using False by (subst bulkLoop.simps) simp
      obtain s2 where wr: "bulkVarBind env s = Inr s2" and nx: "bulkNext s2 = Inr s'"
        by (rule bulkStep_Inr_cases [OF Inr])
      have "mib (bs_ctx s') = mib (bs_ctx s) \<and> user (bs_ctx s') = user (bs_ctx s)"
        using bulkVarBind_Inr_fields(5,6) [OF wr] bulkNext_Inr [OF nx] by auto
      with "1.IH" [OF False Inr] show ?thesis by (simp add: l)
    qed
  qed
qed

lemma bulk_handler_run:
  assumes v: "version (request c) \<noteq> SNMP_VERSION_1"
    and mode: "mode (user c) = SNMP_ACCESS_READ_ONLY \<or> mode (user c) = SNMP_ACCESS_READ_WRITE"
    and init: "snmpInitResponse env c = (NO_ERROR, r)"
    and loop: "bulkLoop env (bulkInit (c\<lparr>response := r\<rparr>)) = s"
  shows "snmpProcessGetBulkRequestPdu env c =
           (if bs_error s = ERROR_BUFFER_OVERFLOW then (NO_ERROR, bs_ctx s)
            else if bs_error s \<noteq> NO_ERROR
            then (case snmpTranslateStatusCode env (response (bs_ctx s)) (bs_error s) (bs_index s) of
                    (e2, r2) \<Rightarrow>
                      if e2 \<noteq> NO_ERROR then (e2, (bs_ctx s)\<lparr>response := r2\<rparr>)
                      else (case snmpCopyVarBindingList env ((bs_ctx s)\<lparr>response := r2\<rparr>) of
                              (e3, c3) \<Rightarrow> if e3 \<noteq> NO_ERROR then (e3, c3) else (NO_ERROR, c3)))
            else (NO_ERROR, bs_ctx s))"
proof -
  have m: "\<not> (mode (user c) \<noteq> SNMP_ACCESS_READ_ONLY \<and> mode (user c) \<noteq> SNMP_ACCESS_READ_WRITE)"
    using mode by auto
  show ?thesis
    unfolding snmpProcessGetBulkRequestPdu_def Let_def
    by (simp only: v m if_False init prod.case loop simp_thms error_t.simps)
qed

section \<open>GetBulkRequest-PDU: a round of endOfMibView\<close>

lemma bulkVarBind_endOfMibView:
  assumes p: "bs_p s = Encoded v # rest"
    and nz: "\<not> (bulkFirst s \<and> maxRepetitions (request (bs_ctx s)) = 0)"
    and valid: "oidCheck env (oid v) = NO_ERROR"
    and nf: "snmpGetNextObject env (bs_ctx s) v = (ERROR_OBJECT_NOT_FOUND, v1)"
    and wr: "writeVarBindingStatus env (response (bs_ctx s))
               (setException SNMP_EXCEPTION_END_OF_MIB_VIEW v1) = NO_ERROR"
  shows "bulkVarBind env s =
           Inr (s\<lparr>bs_ctx := (incInTotalReqVars (bs_ctx s))
                    \<lparr>response := appendBindings (response (bs_ctx s))
                                   [setException SNMP_EXCEPTION_END_OF_MIB_VIEW v1]\<rparr>,
                  bs_error := NO_ERROR,
                  bs_endOfMibView := (bulkFirst s \<or> bs_endOfMibView s),
                  bs_p := rest, bs_m := bulkMark s\<rparr>)"
proof (cases "bulkFirst s")
  case True
  with nz have "maxRepetitions (request (bs_ctx s)) \<noteq> 0" by simp
  with True p valid nf wr show ?thesis
    by (cases s)
       (simp add: bulkVarBind_def bulkFetch_def bulkCatch_def snmpWriteVarBinding_def
          incInTotalReqVars_def bulkFirst_def bulkMark_def appendBindings_def Let_def)
next
  case False
  with p valid nf wr show ?thesis
    by (cases s)
       (simp add: bulkVarBind_def bulkFetch_def bulkCatch_def snmpWriteVarBinding_def
          incInTotalReqVars_def bulkFirst_def bulkMark_def appendBindings_def Let_def)
qed

lemma isEndOfMibView_setException [simp]:
  "isEndOfMibView (setException SNMP_EXCEPTION_END_OF_MIB_VIEW v)"
  by (simp add: isEndOfMibView_def setException_def)

lemma bulk_round_endOfMibView:
  assumes idx: "int (nonRepeaters (request (bs_ctx s))) + 1 \<le> bs_index s"
    and flag: "int (nonRepeaters (request (bs_ctx s))) + 1 < bs_index s \<longrightarrow> bs_endOfMibView s"
    and more: "0 < maxRepetitions (request (bs_ctx s))"
    and p: "bs_p s = map Encoded vs" and ne: "vs \<noteq> []"
    and valid: "\<forall>v\<in>set vs. oidCheck env (oid v) = NO_ERROR"
    and nf: "\<forall>v\<in>set vs. \<forall>c. mib c = mib (bs_ctx s) \<longrightarrow>
               fst (snmpGetNextObject env c v) = ERROR_OBJECT_NOT_FOUND"
    and room: "\<forall>r w. length (varBindList r) < B \<longrightarrow> writeVarBindingStatus env r w = NO_ERROR"
    and B: "length (varBindList (response (bs_ctx s))) + length vs \<le> B"
  shows "bs_error (bulkLoop env s) = NO_ERROR
         \<and> request (bs_ctx (bulkLoop env s)) =
             (request (bs_ctx s))\<lparr>maxRepetitions := maxRepetitions (request (bs_ctx s)) - 1\<rparr>
         \<and> (\<exists>ws. length ws = length vs \<and> (\<forall>w\<in>set ws. isEndOfMibView w)
                \<and> response (bs_ctx (bulkLoop env s)) = appendBindings (response (bs_ctx s)) ws)"
  using assms
proof (induction vs arbitrary: s)
  case Nil
  then show ?case by simp
next
  case (Cons v rest)
  let ?c = "bs_ctx s"
  let ?R = "nonRepeaters (request ?c)"
  obtain e1 v1 where g: "snmpGetNextObject env ?c v = (e1, v1)"
    by (cases "snmpGetNextObject env ?c v")
  with Cons.prems(7) have g': "snmpGetNextObject env ?c v = (ERROR_OBJECT_NOT_FOUND, v1)"
    by (metis fst_conv list.set_intros(1))
  let ?w = "setException SNMP_EXCEPTION_END_OF_MIB_VIEW v1"
  have nz: "\<not> (bulkFirst s \<and> maxRepetitions (request ?c) = 0)"
    using Cons.prems(3) by simp
  have fl: "bulkFirst s \<or> bs_endOfMibView s"
    using Cons.prems(1,2) by (auto simp: bulkFirst_def)
  have wr: "writeVarBindingStatus env (response ?c) ?w = NO_ERROR"
    using Cons.prems(8,9) by simp
  define s2 where "s2 = s\<lparr>bs_ctx := (incInTotalReqVars ?c)
                    \<lparr>response := appendBindings (response ?c) [?w]\<rparr>,
                  bs_error := NO_ERROR, bs_endOfMibView := True,
                  bs_p := map Encoded rest, bs_m := bulkMark s\<rparr>"
  have vb: "bulkVarBind env s = Inr s2"
    using bulkVarBind_endOfMibView [of s v "map Encoded rest" env v1, OF _ nz _ g' wr]
      Cons.prems(4,6) fl
    by (simp add: s2_def)
  have s2f: "bs_index s2 = bs_index s" "bs_p s2 = map Encoded rest" "bs_endOfMibView s2"
    "request (bs_ctx s2) = request ?c" "mib (bs_ctx s2) = mib ?c"
    "response (bs_ctx s2) = appendBindings (response ?c) [?w]" "bs_error s2 = NO_ERROR"
    by (simp_all add: s2_def incInTotalReqVars_def)
  have lp: "bs_p s \<noteq> []" using Cons.prems(4) by simp
  show ?case
  proof (cases "rest = []")
    case True
    define s3 where "s3 = s2\<lparr>bs_ctx := (bs_ctx s2)\<lparr>request := (request (bs_ctx s2))
                  \<lparr>maxRepetitions := maxRepetitions (request (bs_ctx s2)) - 1\<rparr>\<rparr>\<rparr>"
    have "bulkNext s2 = Inl s3"
      using True Cons.prems(1) s2f by (simp add: bulkNext_def Let_def s3_def)
    then have "bulkStep env s = Inl s3"
      by (simp add: bulkStep_def vb)
    then have l: "bulkLoop env s = s3"
      using lp by (subst bulkLoop.simps) simp
    have "length [?w] = length (v # rest)" and "\<forall>w\<in>set [?w]. isEndOfMibView w"
      and "response (bs_ctx s3) = appendBindings (response ?c) [?w]"
      using True by (simp_all add: s3_def s2f)
    then have "\<exists>ws. length ws = length (v # rest) \<and> (\<forall>w\<in>set ws. isEndOfMibView w)
                \<and> response (bs_ctx s3) = appendBindings (response ?c) ws"
      by (intro exI conjI)
    moreover have "bs_error s3 = NO_ERROR"
      and "request (bs_ctx s3) =
             (request ?c)\<lparr>maxRepetitions := maxRepetitions (request ?c) - 1\<rparr>"
      by (simp_all add: s3_def s2f)
    ultimately show ?thesis
      unfolding l by (intro conjI)
  next
    case False
    define s3 where "s3 = s2\<lparr>bs_index := bs_index s2 + 1\<rparr>"
    have "bulkNext s2 = Inr s3"
      using False s2f by (simp add: bulkNext_def Let_def s3_def)
    then have "bulkStep env s = Inr s3"
      by (simp add: bulkStep_def vb)
    then have l: "bulkLoop env s = bulkLoop env s3"
      using lp by (subst bulkLoop.simps) simp
    have s3f: "bs_index s3 = bs_index s + 1" "bs_p s3 = map Encoded rest" "bs_endOfMibView s3"
      "request (bs_ctx s3) = request ?c" "mib (bs_ctx s3) = mib ?c"
      "response (bs_ctx s3) = appendBindings (response ?c) [?w]"
      by (simp_all add: s3_def s2f)
    have len3: "length (varBindList (response (bs_ctx s3))) + length rest \<le> B"
      using Cons.prems(9) by (simp add: s3f appendBindings_def)
    have ih: "bs_error (bulkLoop env s3) = NO_ERROR
         \<and> request (bs_ctx (bulkLoop env s3)) =
             (request (bs_ctx s3))\<lparr>maxRepetitions := maxRepetitions (request (bs_ctx s3)) - 1\<rparr>
         \<and> (\<exists>ws. length ws = length rest \<and> (\<forall>w\<in>set ws. isEndOfMibView w)
                \<and> response (bs_ctx (bulkLoop env s3)) = appendBindings (response (bs_ctx s3)) ws)"
    proof (rule Cons.IH)
      show "int (nonRepeaters (request (bs_ctx s3))) + 1 \<le> bs_index s3"
        using Cons.prems(1) by (simp add: s3f)
      show "int (nonRepeaters (request (bs_ctx s3))) + 1 < bs_index s3 \<longrightarrow> bs_endOfMibView s3"
        by (simp add: s3f)
      show "0 < maxRepetitions (request (bs_ctx s3))"
        using Cons.prems(3) by (simp add: s3f)
      show "bs_p s3 = map Encoded rest" by (simp add: s3f)
      show "rest \<noteq> []" by (rule False)
      show "\<forall>v\<in>set rest. oidCheck env (oid v) = NO_ERROR"
        using Cons.prems(6) by simp
      show "\<forall>v\<in>set rest. \<forall>c. mib c = mib (bs_ctx s3) \<longrightarrow>
               fst (snmpGetNextObject env c v) = ERROR_OBJECT_NOT_FOUND"
        using Cons.prems(7) by (simp add: s3f)
      show "\<forall>r w. length (varBindList r) < B \<longrightarrow> writeVarBindingStatus env r w = NO_ERROR"
        by (rule Cons.prems(8))
      show "length (varBindList (response (bs_ctx s3))) + length rest \<le> B"
        by (rule len3)
    qed
    then obtain ws where ws: "length ws = length rest" "\<forall>w\<in>set ws. isEndOfMibView w"
      "response (bs_ctx (bulkLoop env s3)) = appendBindings (response (bs_ctx s3)) ws"
      by auto
    have "length (?w # ws) = length (v # rest)" and "\<forall>w\<in>set (?w # ws). isEndOfMibView w"
      and "response (bs_ctx (bulkLoop env s3)) = appendBindings (response ?c) (?w # ws)"
      using ws by (simp_all add: s3f appendBindings_def)
    then have "\<exists>ws. length ws = length (v # rest) \<and> (\<forall>w\<in>set ws. isEndOfMibView w)
                \<and> response (bs_ctx (bulkLoop env s3)) = appendBindings (response ?c) ws"
      by (intro exI conjI)
    moreover have "bs_error (bulkLoop env s3) = NO_ERROR"
      and "request (bs_ctx (bulkLoop env s3)) =
             (request ?c)\<lparr>maxRepetitions := maxRepetitions (request ?c) - 1\<rparr>"
      using ih by (simp_all add: s3f)
    ultimately show ?thesis
      unfolding l by (intro conjI)
  qed
qed

section \<open>GetBulkRequest-PDU: bounds, truncation and the request's counter\<close>

lemma bulkLoop_init_final:
  "bulkFinal (request c) (length (varBindList (request c))) (length (varBindList (response c)))
     (bulkLoop env (bulkInit c))"
  by (rule bulkLoop_final [OF bulkInv_init])

lemma bulkFinalD:
  assumes "bulkFinal req0 N L0 s"
  shows "request (bs_ctx s) = req0\<lparr>maxRepetitions := maxRepetitions (request (bs_ctx s))\<rparr>"
    and "maxRepetitions (request (bs_ctx s)) \<le> maxRepetitions req0"
    and "maxRepetitions req0 - maxRepetitions (request (bs_ctx s)) =
           (if nonRepeaters req0 < N
            then (length (varBindList (response (bs_ctx s))) - L0 - nonRepeaters req0)
                   div (N - nonRepeaters req0)
            else 0)"
    and "length (varBindList (response (bs_ctx s))) \<le>
           L0 + min N (nonRepeaters req0) + (N - nonRepeaters req0) * maxRepetitions req0"
  using assms unfolding bulkFinal_def Let_def by blast+


lemmas bulk_eval =
  snmpProcessGetBulkRequestPdu_def bulkInit_def bulkLoop.simps bulkStep_def bulkVarBind_def
  bulkNext_def bulkFetch_def bulkCatch_def snmpWriteVarBinding_def snmpCopyVarBindingList_def
  setException_def incInTotalReqVars_def incBadCommunityUses_def Let_def

lemma bulkLoop_write_failure:
  assumes p: "bs_p s = Encoded v # rest"
    and nz: "\<not> (bulkFirst s \<and> maxRepetitions (request (bs_ctx s)) = 0)"
    and valid: "oidCheck env (oid v) = NO_ERROR"
    and f: "bulkFetch env (bs_ctx s) (bulkFirst s \<or> bs_endOfMibView s) v = Inr (e1, var1, eom)"
    and k: "bulkCatch (bs_ctx s) e1 var1 = Inr (var2, c2)"
    and w: "writeVarBindingStatus env (response (bs_ctx s)) var2 = e"
    and e: "e \<noteq> NO_ERROR"
  shows "bs_error (bulkLoop env s) = e \<and> response (bs_ctx (bulkLoop env s)) = response (bs_ctx s)
         \<and> bs_index (bulkLoop env s) = bs_index s"
proof -
  note fr = bulkCatch_frame [OF k]
  have "\<exists>t. bulkVarBind env s = Inl t \<and> bs_error t = e
             \<and> response (bs_ctx t) = response (bs_ctx s) \<and> bs_index t = bs_index s"
  proof (cases "bulkFirst s")
    case True
    with nz have "maxRepetitions (request (bs_ctx s)) \<noteq> 0" by simp
    with True p valid f k w e fr show ?thesis
      by (simp add: bulkVarBind_def snmpWriteVarBinding_def bulkFirst_def Let_def)
  next
    case False
    with p valid f k w e fr show ?thesis
      by (simp add: bulkVarBind_def snmpWriteVarBinding_def bulkFirst_def Let_def)
  qed
  then obtain t where t: "bulkVarBind env s = Inl t" "bs_error t = e"
    "response (bs_ctx t) = response (bs_ctx s)" "bs_index t = bs_index s"
    by auto
  have "bulkLoop env s = t"
    using p t(1) by (subst bulkLoop.simps) (simp add: bulkStep_def)
  with t show ?thesis by simp
qed



section \<open>PDU dispatch: which errors reach the caller\<close>

lemma set_handler_denied:
  "\<not> accessPermits SNMP_PDU_SET_REQUEST (mode (user c)) \<Longrightarrow>
   snmpProcessSetRequestPdu env c = (ERROR_ACCESS_DENIED, incBadCommunityUses (incInSetRequests c))"
  by (simp add: snmpProcessSetRequestPdu_def accessPermits_def incInSetRequests_def Let_def)

lemma bulk_handler_v1:
  "version (request c) = SNMP_VERSION_1 \<Longrightarrow>
   snmpProcessGetBulkRequestPdu env c = (ERROR_INVALID_TYPE, c)"
  by (simp add: snmpProcessGetBulkRequestPdu_def)

lemma bulk_handler_denied:
  "version (request c) \<noteq> SNMP_VERSION_1 \<Longrightarrow>
   \<not> (mode (user c) = SNMP_ACCESS_READ_ONLY \<or> mode (user c) = SNMP_ACCESS_READ_WRITE) \<Longrightarrow>
   snmpProcessGetBulkRequestPdu env c = (ERROR_ACCESS_DENIED, incBadCommunityUses c)"
  by (simp add: snmpProcessGetBulkRequestPdu_def)

lemma set_handler_error_origin:
  assumes mode: "accessPermits SNMP_PDU_SET_REQUEST (mode (user c))"
    and err: "fst (snmpProcessSetRequestPdu env c) \<noteq> NO_ERROR"
  shows "(\<exists>c'. fst (snmpInitResponse env c') = fst (snmpProcessSetRequestPdu env c))
       \<or> (\<exists>r e' i. fst (snmpTranslateStatusCode env r e' i) = fst (snmpProcessSetRequestPdu env c))
       \<or> (\<exists>c'. copyVarBindingListStatus env c' = fst (snmpProcessSetRequestPdu env c))"
proof (cases "snmpInitResponse env (incInSetRequests c)")
  case (Pair e0 r)
  show ?thesis
  proof (cases "e0 = NO_ERROR")
    case False
    have m: "\<not> (mode (user (incInSetRequests c)) \<noteq> SNMP_ACCESS_WRITE_ONLY
              \<and> mode (user (incInSetRequests c)) \<noteq> SNMP_ACCESS_READ_WRITE)"
      using mode by (simp add: accessPermits_def incInSetRequests_def)
    have "fst (snmpProcessSetRequestPdu env c) = e0"
      unfolding snmpProcessSetRequestPdu_def Let_def
      using False by (simp only: m if_False Pair prod.case simp_thms if_True fst_conv)
    with Pair show ?thesis by (metis fst_conv)
  next
    case True
    obtain e1 idx1 c1 where p1:
      "setLoop env False (setEntry c r) 1 (varBindList (request c)) = (e1, idx1, c1)"
      by (metis prod_cases3)
    obtain e2 idx2 c2 where p2:
      "(if e1 = NO_ERROR then setLoop env True c1 1 (varBindList (request c1))
        else (e1, idx1, c1)) = (e2, idx2, c2)"
      by (metis prod_cases3)
    note run = set_handler_run [OF mode Pair [unfolded True] p1 p2]
    show ?thesis
    proof (cases "e2 = NO_ERROR")
      case True
      with run have "fst (snmpProcessSetRequestPdu env c) = copyVarBindingListStatus env c2"
        by (simp add: snmpCopyVarBindingList_status)
      then show ?thesis by metis
    next
      case e2: False
      obtain e3 r3 where tr: "snmpTranslateStatusCode env (response c2) e2 idx2 = (e3, r3)"
        by (cases "snmpTranslateStatusCode env (response c2) e2 idx2")
      show ?thesis
      proof (cases "e3 = NO_ERROR")
        case False
        with run tr e2 have "fst (snmpProcessSetRequestPdu env c) = e3" by simp
        with tr show ?thesis by (metis fst_conv)
      next
        case True
        with run tr e2
        have "fst (snmpProcessSetRequestPdu env c) =
                copyVarBindingListStatus env (c2\<lparr>response := r3\<rparr>)"
          by (simp add: snmpCopyVarBindingList_status)
        then show ?thesis by metis
      qed
    qed
  qed
qed

lemma bulk_handler_error_origin:
  assumes v: "version (request c) \<noteq> SNMP_VERSION_1"
    and mode: "mode (user c) = SNMP_ACCESS_READ_ONLY \<or> mode (user c) = SNMP_ACCESS_READ_WRITE"
    and err: "fst (snmpProcessGetBulkRequestPdu env c) \<noteq> NO_ERROR"
  shows "(\<exists>c'. fst (snmpInitResponse env c') = fst (snmpProcessGetBulkRequestPdu env c))
       \<or> (\<exists>r e' i. fst (snmpTranslateStatusCode env r e' i) =
                     fst (snmpProcessGetBulkRequestPdu env c))
       \<or> (\<exists>c'. copyVarBindingListStatus env c' = fst (snmpProcessGetBulkRequestPdu env c))"
proof (cases "snmpInitResponse env c")
  case (Pair e0 r)
  show ?thesis
  proof (cases "e0 = NO_ERROR")
    case False
    have m: "\<not> (mode (user c) \<noteq> SNMP_ACCESS_READ_ONLY \<and> mode (user c) \<noteq> SNMP_ACCESS_READ_WRITE)"
      using mode by auto
    have "fst (snmpProcessGetBulkRequestPdu env c) = e0"
      unfolding snmpProcessGetBulkRequestPdu_def Let_def
      using False by (simp only: v m if_False Pair prod.case simp_thms if_True fst_conv)
    with Pair show ?thesis by (metis fst_conv)
  next
    case True
    define s where "s = bulkLoop env (bulkInit (c\<lparr>response := r\<rparr>))"
    note run = bulk_handler_run [OF v mode Pair [unfolded True] s_def [symmetric]]
    obtain e2 r2 where tr:
      "snmpTranslateStatusCode env (response (bs_ctx s)) (bs_error s) (bs_index s) = (e2, r2)"
      by (cases "snmpTranslateStatusCode env (response (bs_ctx s)) (bs_error s) (bs_index s)")
    show ?thesis
    proof (cases "e2 = NO_ERROR")
      case False
      with run tr err have "fst (snmpProcessGetBulkRequestPdu env c) = e2"
        by (auto split: if_splits)
      with tr show ?thesis by (metis fst_conv)
    next
      case True
      with run tr err
      have "fst (snmpProcessGetBulkRequestPdu env c) =
              copyVarBindingListStatus env ((bs_ctx s)\<lparr>response := r2\<rparr>)"
        by (auto simp: snmpCopyVarBindingList_def Let_def split: if_splits prod.splits)
      then show ?thesis by metis
    qed
  qed
qed

text \<open>What \<open>snmpProcessPdu\<close> returns for the four request types, from what the handler returns.\<close>

lemma process_pdu_run:
  assumes hdr: "snmpParsePduHeader env (request c) = (NO_ERROR, req)"
    and t: "pduType req = SNMP_PDU_GET_REQUEST \<or> pduType req = SNMP_PDU_GET_NEXT_REQUEST
            \<or> pduType req = SNMP_PDU_GET_BULK_REQUEST \<or> pduType req = SNMP_PDU_SET_REQUEST"
    and h: "(if pduType req = SNMP_PDU_GET_REQUEST \<or> pduType req = SNMP_PDU_GET_NEXT_REQUEST
             then snmpProcessGetRequestPdu env (c\<lparr>request := req, response := snmpInitMessage\<rparr>)
             else if pduType req = SNMP_PDU_GET_BULK_REQUEST
             then snmpProcessGetBulkRequestPdu env (c\<lparr>request := req, response := snmpInitMessage\<rparr>)
             else snmpProcessSetRequestPdu env (c\<lparr>request := req, response := snmpInitMessage\<rparr>))
            = (e1, c2)"
  shows "snmpProcessPdu env c =
           (if e1 = NO_ERROR
            then (if pduType (request c2) = SNMP_PDU_GET_REQUEST
                     \<or> pduType (request c2) = SNMP_PDU_GET_NEXT_REQUEST
                     \<or> pduType (request c2) = SNMP_PDU_GET_BULK_REQUEST
                     \<or> pduType (request c2) = SNMP_PDU_SET_REQUEST
                  then (snmpWritePduHeader env (response (incOutGetResponses c2)),
                        incOutGetResponses c2)
                  else (e1, c2))
            else (e1, c2))"
  using hdr t h unfolding snmpProcessPdu_def Let_def
  by (auto split: if_splits)

lemmas process_eval = snmpProcessPdu_def incOutGetResponses_def accessPermits_def

section \<open>GetRequest-PDU: failures of the value and of the search\<close>

lemma incInTotalReqVars_sel [simp]:
  "request (incInTotalReqVars c) = request c"
  "response (incInTotalReqVars c) = response c"
  "user (incInTotalReqVars c) = user c"
  "mib (incInTotalReqVars c) = mib c"
  by (simp_all add: incInTotalReqVars_def)




text \<open>
  Claim C9, as the code has it. The loop of \<open>snmpProcessGetBulkRequestPdu\<close> is the total
  function \<open>bulkLoop\<close>: every iteration consumes a binding of the cursor or starts a new
  round with max-repetitions decremented. For a request with \<open>N\<close> bindings, the loop
  leaves in the response at most \<open>min N nonRepeaters\<close> bindings for the non-repeating
  prefix and \<open>maxRepetitions\<close> rounds of \<open>N - nonRepeaters\<close> bindings; with one
  repeating variable that is at most \<open>nonRepeaters + maxRepetitions\<close> bindings, and this
  is the response of the handler when the loop ends without an error other than a buffer
  overflow. A round that starts with repetitions left and in which every variable
  resolves to endOfMibView is the last one: the loop ends without error after it has
  appended one endOfMibView binding per variable and decremented max-repetitions once.
  When the loop ends with another error and the Status Translator and
  \<open>snmpCopyVarBindingList\<close> succeed, the handler returns \<open>NO_ERROR\<close> and its response
  carries the bindings of the request instead, whatever \<open>nonRepeaters\<close> and
  \<open>maxRepetitions\<close> are.
\<close>

theorem getbulk_repetitions_bounded:
  "length (varBindList (response (bs_ctx (bulkLoop env (bulkInit c))))) \<le>
     length (varBindList (response c))
     + min (length (varBindList (request c))) (nonRepeaters (request c))
     + (length (varBindList (request c)) - nonRepeaters (request c)) * maxRepetitions (request c)
   \<and> (length (varBindList (request c)) = nonRepeaters (request c) + 1 \<longrightarrow>
        length (varBindList (response (bs_ctx (bulkLoop env (bulkInit c))))) \<le>
          length (varBindList (response c)) + nonRepeaters (request c) + maxRepetitions (request c))
   \<and> (version (request c) \<noteq> SNMP_VERSION_1
        \<and> (mode (user c) = SNMP_ACCESS_READ_ONLY \<or> mode (user c) = SNMP_ACCESS_READ_WRITE)
        \<and> snmpInitResponse env c = (NO_ERROR, r) \<and> varBindList r = []
        \<and> length (varBindList (request c)) = nonRepeaters (request c) + 1
        \<and> (bs_error (bulkLoop env (bulkInit (c\<lparr>response := r\<rparr>))) = NO_ERROR
           \<or> bs_error (bulkLoop env (bulkInit (c\<lparr>response := r\<rparr>))) = ERROR_BUFFER_OVERFLOW)
      \<longrightarrow> fst (snmpProcessGetBulkRequestPdu env c) = NO_ERROR
          \<and> length (varBindList (response (snd (snmpProcessGetBulkRequestPdu env c)))) \<le>
              nonRepeaters (request c) + maxRepetitions (request c))
   \<and> (bs_index s = int (nonRepeaters (request (bs_ctx s))) + 1
        \<and> 0 < maxRepetitions (request (bs_ctx s))
        \<and> bs_p s = map Encoded vs \<and> vs \<noteq> []
        \<and> (\<forall>v\<in>set vs. oidCheck env (oid v) = NO_ERROR)
        \<and> (\<forall>v\<in>set vs. \<forall>c'. mib c' = mib (bs_ctx s) \<longrightarrow>
              fst (snmpGetNextObject env c' v) = ERROR_OBJECT_NOT_FOUND)
        \<and> (\<forall>r' w. length (varBindList r') < length (varBindList (response (bs_ctx s))) + length vs
              \<longrightarrow> writeVarBindingStatus env r' w = NO_ERROR)
      \<longrightarrow> bs_error (bulkLoop env s) = NO_ERROR
          \<and> request (bs_ctx (bulkLoop env s)) =
              (request (bs_ctx s))\<lparr>maxRepetitions := maxRepetitions (request (bs_ctx s)) - 1\<rparr>
          \<and> (\<exists>ws. length ws = length vs \<and> (\<forall>w\<in>set ws. isEndOfMibView w)
                 \<and> response (bs_ctx (bulkLoop env s)) = appendBindings (response (bs_ctx s)) ws))
   \<and> (version (request c) \<noteq> SNMP_VERSION_1
        \<and> (mode (user c) = SNMP_ACCESS_READ_ONLY \<or> mode (user c) = SNMP_ACCESS_READ_WRITE)
        \<and> snmpInitResponse env c = (NO_ERROR, r)
        \<and> bs_error (bulkLoop env (bulkInit (c\<lparr>response := r\<rparr>))) \<noteq> NO_ERROR
        \<and> bs_error (bulkLoop env (bulkInit (c\<lparr>response := r\<rparr>))) \<noteq> ERROR_BUFFER_OVERFLOW
        \<and> snmpTranslateStatusCode env
              (response (bs_ctx (bulkLoop env (bulkInit (c\<lparr>response := r\<rparr>)))))
              (bs_error (bulkLoop env (bulkInit (c\<lparr>response := r\<rparr>))))
              (bs_index (bulkLoop env (bulkInit (c\<lparr>response := r\<rparr>)))) = (NO_ERROR, r2)
        \<and> copyVarBindingListStatus env
              ((bs_ctx (bulkLoop env (bulkInit (c\<lparr>response := r\<rparr>))))\<lparr>response := r2\<rparr>) =
            NO_ERROR
      \<longrightarrow> fst (snmpProcessGetBulkRequestPdu env c) = NO_ERROR
          \<and> varBindList (response (snd (snmpProcessGetBulkRequestPdu env c))) =
              varBindList (request c))"
proof (intro conjI impI)
  note fin = bulkFinalD [OF bulkLoop_init_final [of c env]]
  show bound: "length (varBindList (response (bs_ctx (bulkLoop env (bulkInit c))))) \<le>
     length (varBindList (response c))
     + min (length (varBindList (request c))) (nonRepeaters (request c))
     + (length (varBindList (request c)) - nonRepeaters (request c)) * maxRepetitions (request c)"
    by (rule fin(4))
  assume one: "length (varBindList (request c)) = nonRepeaters (request c) + 1"
  show "length (varBindList (response (bs_ctx (bulkLoop env (bulkInit c))))) \<le>
          length (varBindList (response c)) + nonRepeaters (request c) + maxRepetitions (request c)"
    using bound by (simp add: one)
next
  assume a: "version (request c) \<noteq> SNMP_VERSION_1
        \<and> (mode (user c) = SNMP_ACCESS_READ_ONLY \<or> mode (user c) = SNMP_ACCESS_READ_WRITE)
        \<and> snmpInitResponse env c = (NO_ERROR, r) \<and> varBindList r = []
        \<and> length (varBindList (request c)) = nonRepeaters (request c) + 1
        \<and> (bs_error (bulkLoop env (bulkInit (c\<lparr>response := r\<rparr>))) = NO_ERROR
           \<or> bs_error (bulkLoop env (bulkInit (c\<lparr>response := r\<rparr>))) = ERROR_BUFFER_OVERFLOW)"
  define t where "t = bulkLoop env (bulkInit (c\<lparr>response := r\<rparr>))"
  from a have v: "version (request c) \<noteq> SNMP_VERSION_1"
    and mode: "mode (user c) = SNMP_ACCESS_READ_ONLY \<or> mode (user c) = SNMP_ACCESS_READ_WRITE"
    and init: "snmpInitResponse env c = (NO_ERROR, r)"
    and empty: "varBindList r = []"
    and one: "length (varBindList (request c)) = nonRepeaters (request c) + 1"
    and err: "bs_error t = NO_ERROR \<or> bs_error t = ERROR_BUFFER_OVERFLOW"
    by (simp_all add: t_def)
  have run: "snmpProcessGetBulkRequestPdu env c = (NO_ERROR, bs_ctx t)"
    using bulk_handler_run [OF v mode init t_def [symmetric]] err by auto
  have "length (varBindList (response (bs_ctx t))) \<le>
          nonRepeaters (request c) + maxRepetitions (request c)"
    using bulkFinalD(4) [OF bulkLoop_init_final [of "c\<lparr>response := r\<rparr>" env]]
    by (simp add: t_def [symmetric] empty one)
  then show "fst (snmpProcessGetBulkRequestPdu env c) = NO_ERROR"
    and "length (varBindList (response (snd (snmpProcessGetBulkRequestPdu env c)))) \<le>
              nonRepeaters (request c) + maxRepetitions (request c)"
    by (simp_all add: run)
next
  assume a: "bs_index s = int (nonRepeaters (request (bs_ctx s))) + 1
        \<and> 0 < maxRepetitions (request (bs_ctx s))
        \<and> bs_p s = map Encoded vs \<and> vs \<noteq> []
        \<and> (\<forall>v\<in>set vs. oidCheck env (oid v) = NO_ERROR)
        \<and> (\<forall>v\<in>set vs. \<forall>c'. mib c' = mib (bs_ctx s) \<longrightarrow>
              fst (snmpGetNextObject env c' v) = ERROR_OBJECT_NOT_FOUND)
        \<and> (\<forall>r' w. length (varBindList r') < length (varBindList (response (bs_ctx s))) + length vs
              \<longrightarrow> writeVarBindingStatus env r' w = NO_ERROR)"
  have r: "bs_error (bulkLoop env s) = NO_ERROR
         \<and> request (bs_ctx (bulkLoop env s)) =
             (request (bs_ctx s))\<lparr>maxRepetitions := maxRepetitions (request (bs_ctx s)) - 1\<rparr>
         \<and> (\<exists>ws. length ws = length vs \<and> (\<forall>w\<in>set ws. isEndOfMibView w)
                \<and> response (bs_ctx (bulkLoop env s)) = appendBindings (response (bs_ctx s)) ws)"
  proof (rule bulk_round_endOfMibView
      [where B = "length (varBindList (response (bs_ctx s))) + length vs"])
    show "int (nonRepeaters (request (bs_ctx s))) + 1 \<le> bs_index s" using a by simp
    show "int (nonRepeaters (request (bs_ctx s))) + 1 < bs_index s \<longrightarrow> bs_endOfMibView s"
      using a by simp
    show "0 < maxRepetitions (request (bs_ctx s))" using a by simp
    show "bs_p s = map Encoded vs" using a by simp
    show "vs \<noteq> []" using a by simp
    show "\<forall>v\<in>set vs. oidCheck env (oid v) = NO_ERROR" using a by simp
    show "\<forall>v\<in>set vs. \<forall>c. mib c = mib (bs_ctx s) \<longrightarrow>
               fst (snmpGetNextObject env c v) = ERROR_OBJECT_NOT_FOUND"
      using a by simp
    show "\<forall>r w. length (varBindList r) < length (varBindList (response (bs_ctx s))) + length vs
            \<longrightarrow> writeVarBindingStatus env r w = NO_ERROR"
      using a by simp
    show "length (varBindList (response (bs_ctx s))) + length vs \<le>
            length (varBindList (response (bs_ctx s))) + length vs"
      by simp
  qed
  from r show "bs_error (bulkLoop env s) = NO_ERROR" by simp
  from r show "request (bs_ctx (bulkLoop env s)) =
              (request (bs_ctx s))\<lparr>maxRepetitions := maxRepetitions (request (bs_ctx s)) - 1\<rparr>"
    by simp
  from r show "\<exists>ws. length ws = length vs \<and> (\<forall>w\<in>set ws. isEndOfMibView w)
                 \<and> response (bs_ctx (bulkLoop env s)) = appendBindings (response (bs_ctx s)) ws"
    by simp
next
  assume a: "version (request c) \<noteq> SNMP_VERSION_1
        \<and> (mode (user c) = SNMP_ACCESS_READ_ONLY \<or> mode (user c) = SNMP_ACCESS_READ_WRITE)
        \<and> snmpInitResponse env c = (NO_ERROR, r)
        \<and> bs_error (bulkLoop env (bulkInit (c\<lparr>response := r\<rparr>))) \<noteq> NO_ERROR
        \<and> bs_error (bulkLoop env (bulkInit (c\<lparr>response := r\<rparr>))) \<noteq> ERROR_BUFFER_OVERFLOW
        \<and> snmpTranslateStatusCode env
              (response (bs_ctx (bulkLoop env (bulkInit (c\<lparr>response := r\<rparr>)))))
              (bs_error (bulkLoop env (bulkInit (c\<lparr>response := r\<rparr>))))
              (bs_index (bulkLoop env (bulkInit (c\<lparr>response := r\<rparr>)))) = (NO_ERROR, r2)
        \<and> copyVarBindingListStatus env
              ((bs_ctx (bulkLoop env (bulkInit (c\<lparr>response := r\<rparr>))))\<lparr>response := r2\<rparr>) =
            NO_ERROR"
  define t where "t = bulkLoop env (bulkInit (c\<lparr>response := r\<rparr>))"
  from a have v: "version (request c) \<noteq> SNMP_VERSION_1"
    and mode: "mode (user c) = SNMP_ACCESS_READ_ONLY \<or> mode (user c) = SNMP_ACCESS_READ_WRITE"
    and init: "snmpInitResponse env c = (NO_ERROR, r)"
    and e1: "bs_error t \<noteq> NO_ERROR" and e2: "bs_error t \<noteq> ERROR_BUFFER_OVERFLOW"
    and tr: "snmpTranslateStatusCode env (response (bs_ctx t)) (bs_error t) (bs_index t) =
               (NO_ERROR, r2)"
    and cp: "copyVarBindingListStatus env ((bs_ctx t)\<lparr>response := r2\<rparr>) = NO_ERROR"
    by (simp_all add: t_def)
  have run: "snmpProcessGetBulkRequestPdu env c =
               (NO_ERROR, (bs_ctx t)\<lparr>response := r2\<lparr>varBindList :=
                                        varBindList (request (bs_ctx t))\<rparr>\<rparr>)"
    using bulk_handler_run [OF v mode init t_def [symmetric]] e1 e2 tr cp
    by (simp add: snmpCopyVarBindingList_def Let_def)
  have rq: "request (bs_ctx t) =
          (request c)\<lparr>maxRepetitions := maxRepetitions (request (bs_ctx t))\<rparr>"
    using bulkFinalD(1) [OF bulkLoop_init_final [of "c\<lparr>response := r\<rparr>" env]]
    by (simp add: t_def [symmetric])
  have "varBindList (request (bs_ctx t)) = varBindList (request c)"
    by (subst rq) simp
  then show "fst (snmpProcessGetBulkRequestPdu env c) = NO_ERROR"
    and "varBindList (response (snd (snmpProcessGetBulkRequestPdu env c))) =
              varBindList (request c)"
    by (simp_all add: run)
qed

text \<open>
  Claim C9 as stated fails: for a request with one non-repeater, no repetition and two
  bindings, on a store that cannot read the first object, the handler returns
  \<open>NO_ERROR\<close> and its response carries the two bindings of the request, more than
  \<open>nonRepeaters + maxRepetitions = 1\<close>.
\<close>

theorem getbulk_abort_echo_counterexample:
  "nonRepeaters (request exBulkFaultCtx) = 1
   \<and> maxRepetitions (request exBulkFaultCtx) = 0
   \<and> fst (snmpProcessGetBulkRequestPdu (exEnv 10) exBulkFaultCtx) = NO_ERROR
   \<and> errorStatus (response (snd (snmpProcessGetBulkRequestPdu (exEnv 10) exBulkFaultCtx))) = 5
   \<and> errorIndex (response (snd (snmpProcessGetBulkRequestPdu (exEnv 10) exBulkFaultCtx))) = 1
   \<and> varBindList (response (snd (snmpProcessGetBulkRequestPdu (exEnv 10) exBulkFaultCtx))) =
       [Encoded (exVar [0] []), Encoded (exVar [1] [])]"
  by (simp add: exBulkFaultCtx_def ex_simps bulk_eval)

theorem getbulk_repetitions_bounded_witness:
  "length (varBindList (response (bs_ctx (bulkLoop (exEnv 10) (bulkInit exBulkTwoCtx))))) \<le> 3
   \<and> fst (snmpProcessGetBulkRequestPdu (exEnv 10) exBulkTwoCtx) = NO_ERROR
   \<and> length (varBindList (response (snd (snmpProcessGetBulkRequestPdu (exEnv 10) exBulkTwoCtx))))
       \<le> 3
   \<and> bs_error (bulkLoop (exEnv 10) exBulkLastState) = NO_ERROR
   \<and> maxRepetitions (request (bs_ctx exBulkLastState)) = 5
   \<and> maxRepetitions (request (bs_ctx (bulkLoop (exEnv 10) exBulkLastState))) = 4
   \<and> bs_error (bulkLoop (exEnv 10)
         (bulkInit (exBulkFaultCtx\<lparr>response := snd (exInitResponse exBulkFaultCtx)\<rparr>))) =
       ERROR_OTHER 7
   \<and> varBindList (response (snd (snmpProcessGetBulkRequestPdu (exEnv 10) exBulkFaultCtx))) =
       varBindList (request exBulkFaultCtx)"
  using getbulk_repetitions_bounded [where c = exBulkTwoCtx and env = "exEnv 10"
      and r = "snd (exInitResponse exBulkTwoCtx)" and s = exBulkLastState
      and vs = "[exVar [3] []]"
      and ?r2.0 = "snd (exInitResponse exBulkTwoCtx)"]
    getbulk_repetitions_bounded [where c = exBulkFaultCtx and env = "exEnv 10"
      and r = "snd (exInitResponse exBulkFaultCtx)" and s = exBulkLastState
      and vs = "[exVar [3] []]"
      and ?r2.0 = "(snd (exInitResponse exBulkFaultCtx))\<lparr>errorStatus := 5, errorIndex := 1\<rparr>"]
  by (simp add: exBulkTwoCtx_def exBulkLastCtx_def exBulkLastState_def exBulkFaultCtx_def
        exBulkCtx_def ex_simps bulk_eval)


end
